theory Spec2Isabelle
  imports Main
begin

section \<open>Data model of the checker's matching engine\<close>

text \<open>
  The development embeds \<open>tools/checker/match/file.py\<close>: the execution automaton
  (\<open>ExecutionState\<close>), the line search \<open>findMatchingLine\<close>, the driver
  \<open>MatchTestCase\<close> and the orchestrator \<open>MatchFiles\<close>.

  Python integers are \<open>int\<close>.  Exceptions are values: a handler returns either
  \<open>Inr\<close> of the updated state, or \<open>Inl\<close> of the exception together with the state
  the object is left in when the exception leaves the method (the object is mutated in
  place, so that state is observable).
\<close>

text \<open>\<open>TestStatement.Variant\<close>; the constructor \<open>Not'\<close> is the variant \<open>Not\<close>.\<close>

datatype Variant = InOrder | NextLine | DAG | Not' | Eval

text \<open>
  Modelled from the spec: the class \<open>TestStatement\<close> lives in
  \<open>file_format/checker/struct.py\<close>; a statement is an immutable directive with a
  variant tag and an opaque pattern-or-expression payload.
\<close>

record TestStatement =
  variant :: Variant
  payload :: string

text \<open>Bindings: a dictionary from variable names to captured strings.\<close>

type_synonym Variables = "string \<rightharpoonup> string"

text \<open>
  Modelled from the spec: the class \<open>C1visualizerPass\<close> lives in
  \<open>file_format/c1visualizer/struct.py\<close>; a pass is a named, ordered sequence of text
  lines with a base line number.
\<close>

record C1visualizerPass =
  name :: string
  body :: "string list"
  startLineNo :: int

text \<open>
  \<open>MatchScope = namedtuple("MatchScope", ["start", "end"])\<close>; the field \<open>stop\<close> is the
  tuple's \<open>end\<close>.  \<open>MatchInfo = namedtuple("MatchInfo", ["scope", "variables"])\<close>; the
  field \<open>vars\<close> is the tuple's \<open>variables\<close>, and \<open>None\<close> there is Python's \<open>None\<close>.
\<close>

record MatchScope =
  start :: int
  stop :: int

record MatchInfo =
  scope :: MatchScope
  vars :: "Variables option"

text \<open>
  The exceptions that can leave the code: \<open>MatchFailedException(statement, lineNo,
  variables)\<close>, a failed \<open>assert\<close>, a list index out of range, \<open>min\<close>/\<open>max\<close> of
  an empty list, the evaluator's unbound variable, a file that cannot be read, and the
  logger's fatal error.
\<close>

datatype error =
    MatchFailedException TestStatement int "Variables option"
  | AssertionError
  | IndexError
  | ValueError
  | UnboundVariable
  | IOError
  | FatalError

record ExecutionState =
  cursor :: int
  c1Pass :: C1visualizerPass
  c1Length :: int
  variables :: "Variables option"
  dagQueue :: "TestStatement list"
  notQueue :: "TestStatement list"

type_synonym outcome = "(error \<times> ExecutionState) + ExecutionState"

text \<open>
  The two collaborators from \<open>match/line.py\<close> are parameters of the model.
  \<open>MatchLines(statement, line, variables)\<close> returns the new bindings or \<open>None\<close>;
  \<open>EvaluateLine(statement, variables)\<close> returns a truth value or fails on an
  unbound variable.
\<close>

type_synonym MatchLines = "TestStatement \<Rightarrow> string \<Rightarrow> Variables option \<Rightarrow> Variables option"

datatype EvalResult = EvalReturns bool | EvalUnbound

type_synonym EvaluateLine = "TestStatement \<Rightarrow> Variables option \<Rightarrow> EvalResult"

section \<open>Python primitives\<close>

text \<open>\<open>xs[i]\<close>: negative indices count from the end, anything else out of range raises.\<close>

definition getitem :: "'a list \<Rightarrow> int \<Rightarrow> 'a option" where
  "getitem xs i =
     (if 0 \<le> i \<and> i < int (length xs) then Some (xs ! nat i)
      else if - int (length xs) \<le> i \<and> i < 0 then Some (xs ! nat (int (length xs) + i))
      else None)"

text \<open>\<open>min(xs)\<close> and \<open>max(xs)\<close>; \<open>None\<close> is the \<open>ValueError\<close> on an empty list.\<close>

fun py_min :: "int list \<Rightarrow> int option" where
  "py_min [] = None"
| "py_min (x # xs) = Some (fold min xs x)"

fun py_max :: "int list \<Rightarrow> int option" where
  "py_max [] = None"
| "py_max (x # xs) = Some (fold max xs x)"

section \<open>The line search\<close>

text \<open>
  The \<open>for\<close> loop of \<open>findMatchingLine\<close> over the indices still to visit:
  \<open>Inr None\<close> when the loop runs to its end, \<open>Inr (Some m)\<close> at the \<open>return\<close>.
\<close>

fun scanLines :: "MatchLines \<Rightarrow> TestStatement \<Rightarrow> C1visualizerPass \<Rightarrow> Variables option
    \<Rightarrow> int list \<Rightarrow> int list \<Rightarrow> error + MatchInfo option" where
  "scanLines M statement p vs excludeLines [] = Inr None"
| "scanLines M statement p vs excludeLines (i # rest) =
     (if i \<in> set excludeLines then scanLines M statement p vs excludeLines rest
      else case getitem (body p) i of
        None \<Rightarrow> Inl IndexError
      | Some line \<Rightarrow>
          (case M statement line vs of
             None \<Rightarrow> scanLines M statement p vs excludeLines rest
           | Some newVariables \<Rightarrow>
               Inr (Some \<lparr>scope = \<lparr>start = i, stop = i\<rparr>, vars = Some newVariables\<rparr>)))"

definition findMatchingLine :: "MatchLines \<Rightarrow> TestStatement \<Rightarrow> C1visualizerPass \<Rightarrow> MatchScope
    \<Rightarrow> Variables option \<Rightarrow> int list \<Rightarrow> error + MatchInfo" where
  "findMatchingLine M statement p sc vs excludeLines =
     (case scanLines M statement p vs excludeLines [start sc .. stop sc - 1] of
        Inl e \<Rightarrow> Inl e
      | Inr (Some m) \<Rightarrow> Inr m
      | Inr None \<Rightarrow> Inl (MatchFailedException statement (start sc) vs))"

section \<open>The execution automaton\<close>

definition ExecutionState_init :: "C1visualizerPass \<Rightarrow> Variables \<Rightarrow> ExecutionState" where
  "ExecutionState_init p vs =
     \<lparr>cursor = 0, c1Pass = p, c1Length = int (length (body p)), variables = Some vs,
      dagQueue = [], notQueue = []\<rparr>"

text \<open>The inner and the outer loop of \<open>handleNotQueue\<close>.\<close>

fun notScanLines :: "MatchLines \<Rightarrow> TestStatement \<Rightarrow> C1visualizerPass \<Rightarrow> Variables option
    \<Rightarrow> int list \<Rightarrow> error + unit" where
  "notScanLines M statement p vs [] = Inr ()"
| "notScanLines M statement p vs (i # rest) =
     (case getitem (body p) i of
        None \<Rightarrow> Inl IndexError
      | Some line \<Rightarrow>
          (if M statement line vs \<noteq> None then Inl (MatchFailedException statement i vs)
           else notScanLines M statement p vs rest))"

fun notLoop :: "MatchLines \<Rightarrow> C1visualizerPass \<Rightarrow> Variables option \<Rightarrow> MatchScope
    \<Rightarrow> TestStatement list \<Rightarrow> error + unit" where
  "notLoop M p vs sc [] = Inr ()"
| "notLoop M p vs sc (statement # rest) =
     (if variant statement \<noteq> Not' then Inl AssertionError
      else case notScanLines M statement p vs [start sc .. stop sc - 1] of
        Inl e \<Rightarrow> Inl e
      | Inr _ \<Rightarrow> notLoop M p vs sc rest)"

definition handleNotQueue :: "MatchLines \<Rightarrow> MatchScope \<Rightarrow> ExecutionState \<Rightarrow> outcome" where
  "handleNotQueue M sc s =
     (case notLoop M (c1Pass s) (variables s) sc (notQueue s) of
        Inl e \<Rightarrow> Inl (e, s)
      | Inr _ \<Rightarrow> Inr (s\<lparr>notQueue := []\<rparr>))"

definition moveCursor :: "MatchLines \<Rightarrow> MatchInfo \<Rightarrow> ExecutionState \<Rightarrow> outcome" where
  "moveCursor M m s =
     (if \<not> cursor s \<le> stop (scope m) then Inl (AssertionError, s)
      else case handleNotQueue M \<lparr>start = cursor s, stop = start (scope m)\<rparr> s of
        Inl e \<Rightarrow> Inl e
      | Inr s1 \<Rightarrow> Inr (s1\<lparr>cursor := stop (scope m) + 1, variables := vars m\<rparr>))"

text \<open>
  The loop of \<open>handleDagQueue\<close>, with its locals \<open>variables\<close> and \<open>matchedLines\<close>.
\<close>

fun dagLoop :: "MatchLines \<Rightarrow> C1visualizerPass \<Rightarrow> MatchScope \<Rightarrow> TestStatement list
    \<Rightarrow> Variables option \<Rightarrow> int list \<Rightarrow> error + (int list \<times> Variables option)" where
  "dagLoop M p sc [] vs matchedLines = Inr (matchedLines, vs)"
| "dagLoop M p sc (statement # rest) vs matchedLines =
     (if variant statement \<noteq> DAG then Inl AssertionError
      else case findMatchingLine M statement p sc vs matchedLines of
        Inl e \<Rightarrow> Inl e
      | Inr m \<Rightarrow>
          (if start (scope m) \<noteq> stop (scope m) then Inl AssertionError
           else if start (scope m) \<in> set matchedLines then Inl AssertionError
           else dagLoop M p sc rest (vars m) (matchedLines @ [start (scope m)])))"

definition handleDagQueue :: "MatchLines \<Rightarrow> MatchScope \<Rightarrow> ExecutionState \<Rightarrow> outcome" where
  "handleDagQueue M sc s =
     (if dagQueue s = [] then Inr s
      else case dagLoop M (c1Pass s) sc (dagQueue s) (variables s) [] of
        Inl e \<Rightarrow> Inl (e, s)
      | Inr (matchedLines, vs) \<Rightarrow>
          (case (py_min matchedLines, py_max matchedLines) of
             (Some lo, Some hi) \<Rightarrow>
               moveCursor M \<lparr>scope = \<lparr>start = lo, stop = hi\<rparr>, vars = vs\<rparr> (s\<lparr>dagQueue := []\<rparr>)
           | _ \<Rightarrow> Inl (ValueError, s)))"

definition handleEOF :: "MatchLines \<Rightarrow> ExecutionState \<Rightarrow> outcome" where
  "handleEOF M s =
     moveCursor M \<lparr>scope = \<lparr>start = c1Length s, stop = c1Length s\<rparr>, vars = None\<rparr> s"

definition handleInOrder :: "MatchLines \<Rightarrow> TestStatement \<Rightarrow> ExecutionState \<Rightarrow> outcome" where
  "handleInOrder M statement s =
     (case findMatchingLine M statement (c1Pass s) \<lparr>start = cursor s, stop = c1Length s\<rparr>
             (variables s) [] of
        Inl e \<Rightarrow> Inl (e, s)
      | Inr m \<Rightarrow> moveCursor M m s)"

definition handleNextLine :: "MatchLines \<Rightarrow> TestStatement \<Rightarrow> ExecutionState \<Rightarrow> outcome" where
  "handleNextLine M statement s =
     (case findMatchingLine M statement (c1Pass s) \<lparr>start = cursor s, stop = cursor s + 1\<rparr>
             (variables s) [] of
        Inl e \<Rightarrow> Inl (e, s)
      | Inr m \<Rightarrow> moveCursor M m s)"

definition handleEval :: "EvaluateLine \<Rightarrow> TestStatement \<Rightarrow> ExecutionState \<Rightarrow> outcome" where
  "handleEval E statement s =
     (case E statement (variables s) of
        EvalUnbound \<Rightarrow> Inl (UnboundVariable, s)
      | EvalReturns b \<Rightarrow>
          (if \<not> b then Inl (MatchFailedException statement (cursor s) (variables s), s)
           else Inr s))"

text \<open>
  The second half of \<open>handle\<close>, after the flush of the DAG queue: the dispatch on the
  variant.  The statement \<open>None\<close> is the end-of-input marker.
\<close>

fun dispatch :: "MatchLines \<Rightarrow> EvaluateLine \<Rightarrow> TestStatement option \<Rightarrow> ExecutionState \<Rightarrow> outcome" where
  "dispatch M E None s = handleEOF M s"
| "dispatch M E (Some statement) s =
     (case variant statement of
        InOrder \<Rightarrow> handleInOrder M statement s
      | NextLine \<Rightarrow> handleNextLine M statement s
      | DAG \<Rightarrow> Inr (s\<lparr>dagQueue := dagQueue s @ [statement]\<rparr>)
      | Not' \<Rightarrow> Inr (s\<lparr>notQueue := notQueue s @ [statement]\<rparr>)
      | Eval \<Rightarrow> handleEval E statement s)"

definition handle :: "MatchLines \<Rightarrow> EvaluateLine \<Rightarrow> TestStatement option \<Rightarrow> ExecutionState \<Rightarrow> outcome" where
  "handle M E statement s =
     (if map_option variant statement \<noteq> Some DAG
      then case handleDagQueue M \<lparr>start = cursor s, stop = c1Length s\<rparr> s of
             Inl e \<Rightarrow> Inl e
           | Inr s1 \<Rightarrow> dispatch M E statement s1
      else dispatch M E statement s)"

text \<open>The loop \<open>for statement in testStatements: state.handle(statement)\<close>.\<close>

fun handleAll :: "MatchLines \<Rightarrow> EvaluateLine \<Rightarrow> TestStatement option list \<Rightarrow> ExecutionState \<Rightarrow> outcome" where
  "handleAll M E [] s = Inr s"
| "handleAll M E (statement # rest) s =
     (case handle M E statement s of
        Inl e \<Rightarrow> Inl e
      | Inr s1 \<Rightarrow> handleAll M E rest s1)"

text \<open>The state an outcome leaves the automaton in.\<close>

fun finalState :: "outcome \<Rightarrow> ExecutionState" where
  "finalState (Inl (e, s)) = s"
| "finalState (Inr s) = s"

section \<open>The driver and the orchestrator\<close>

text \<open>
  Modelled from the spec: the classes \<open>TestCase\<close> and \<open>CheckerFile\<close> live in
  \<open>file_format/checker/struct.py\<close>, \<open>C1visualizerFile\<close> in
  \<open>file_format/c1visualizer/struct.py\<close>.  A test case has a name, its ordered
  statements, a nullable architecture filter, a debuggable-mode filter and its source
  location; \<open>findPass\<close> returns the first pass with the given name.
\<close>

record TestCase =
  tc_name :: string
  statements :: "TestStatement list"
  testArch :: "string option"
  forDebuggable :: bool
  tc_fileName :: string
  tc_startLineNo :: int

record CheckerFile =
  testCases :: "TestCase list"

record C1visualizerFile =
  fileName :: string
  passes :: "C1visualizerPass list"

definition findPass :: "C1visualizerFile \<Rightarrow> string \<Rightarrow> C1visualizerPass option" where
  "findPass c1File n = find (\<lambda>p. name p = n) (passes c1File)"

definition MatchTestCase :: "MatchLines \<Rightarrow> EvaluateLine \<Rightarrow> TestCase \<Rightarrow> C1visualizerPass
    \<Rightarrow> error + unit" where
  "MatchTestCase M E testCase p =
     (if tc_name testCase \<noteq> name p then Inl AssertionError
      else case handleAll M E (map Some (statements testCase) @ [None])
                  (ExecutionState_init p Map.empty) of
        Inl (e, s) \<Rightarrow> Inl e
      | Inr s \<Rightarrow> Inr ())"

text \<open>
  Modelled from the spec: the class \<open>Logger\<close> lives in \<open>common/logger.py\<close>.  The
  logger is the list of what it was asked to report: a failed test case becomes a
  per-test-case failure report and the orchestrator goes on; a test case whose pass is
  absent is a fatal error.  A formatted message is kept as its template and its argument.
\<close>

datatype Level = LevelInfo | LevelError

datatype logEvent =
    Log string Level
  | StartTest string
  | TestPassed
  | TestFailed "string \<times> int" TestStatement "Variables option"
  | Fail string string int string

type_synonym Logger = "logEvent list"

definition Logger_log :: "string \<Rightarrow> Level \<Rightarrow> Logger \<Rightarrow> Logger" where
  "Logger_log text level lg = lg @ [Log text level]"

definition Logger_startTest :: "string \<Rightarrow> Logger \<Rightarrow> Logger" where
  "Logger_startTest n lg = lg @ [StartTest n]"

definition Logger_testPassed :: "Logger \<Rightarrow> Logger" where
  "Logger_testPassed lg = lg @ [TestPassed]"

definition Logger_testFailed :: "string \<times> int \<Rightarrow> TestStatement \<Rightarrow> Variables option \<Rightarrow> Logger \<Rightarrow> Logger" where
  "Logger_testFailed msg statement vs lg = lg @ [TestFailed msg statement vs]"

definition Logger_fail :: "string \<Rightarrow> string \<Rightarrow> int \<Rightarrow> string \<Rightarrow> Logger \<Rightarrow> error \<times> Logger" where
  "Logger_fail msg file line text lg = (FatalError, lg @ [Fail msg file line text])"

text \<open>
  The body of the \<open>except MatchFailedException as e\<close> clause, for the other exceptions
  the clause does not apply and they leave \<open>MatchFiles\<close>.  The file system is a map from
  file names to contents; a file that is absent cannot be read.
\<close>

definition reportFailure :: "(string \<rightharpoonup> string) \<Rightarrow> C1visualizerFile \<Rightarrow> C1visualizerPass
    \<Rightarrow> error \<Rightarrow> Logger \<Rightarrow> (error \<times> Logger) + Logger" where
  "reportFailure fs c1File p e lg =
     (case e of
        MatchFailedException statement eLineNo vs \<Rightarrow>
          (let lineNo = startLineNo p + eLineNo;
               msg = (if variant statement = Not' then ''NOT statement matched line {}''
                      else ''Statement could not be matched starting from line {}'', lineNo)
           in case fs (fileName c1File) of
                None \<Rightarrow> Inl (IOError, lg)
              | Some cfgFile \<Rightarrow>
                  Inr (Logger_testFailed msg statement vs (Logger_log cfgFile LevelError lg)))
      | _ \<Rightarrow> Inl (e, lg))"

fun MatchFiles_loop :: "MatchLines \<Rightarrow> EvaluateLine \<Rightarrow> (string \<rightharpoonup> string) \<Rightarrow> C1visualizerFile
    \<Rightarrow> string option \<Rightarrow> bool \<Rightarrow> TestCase list \<Rightarrow> Logger \<Rightarrow> (error \<times> Logger) + Logger" where
  "MatchFiles_loop M E fs c1File targetArch debuggableMode [] lg = Inr lg"
| "MatchFiles_loop M E fs c1File targetArch debuggableMode (testCase # rest) lg =
     (if testArch testCase \<notin> set [None, targetArch]
      then MatchFiles_loop M E fs c1File targetArch debuggableMode rest lg
      else if forDebuggable testCase \<noteq> debuggableMode
      then MatchFiles_loop M E fs c1File targetArch debuggableMode rest lg
      else case findPass c1File (tc_name testCase) of
        None \<Rightarrow>
          (case fs (fileName c1File) of
             None \<Rightarrow> Inl (IOError, lg)
           | Some cfgFile \<Rightarrow>
               Inl (Logger_fail ''Test case not found in the CFG file'' (tc_fileName testCase)
                      (tc_startLineNo testCase) (tc_name testCase)
                      (Logger_log cfgFile LevelError lg)))
      | Some p \<Rightarrow>
          (let lg1 = Logger_startTest (tc_name testCase) lg
           in case MatchTestCase M E testCase p of
                Inr u \<Rightarrow>
                  MatchFiles_loop M E fs c1File targetArch debuggableMode rest
                    (Logger_testPassed lg1)
              | Inl e \<Rightarrow>
                  (case reportFailure fs c1File p e lg1 of
                     Inl err \<Rightarrow> Inl err
                   | Inr lg2 \<Rightarrow>
                       MatchFiles_loop M E fs c1File targetArch debuggableMode rest lg2)))"

definition MatchFiles :: "MatchLines \<Rightarrow> EvaluateLine \<Rightarrow> (string \<rightharpoonup> string) \<Rightarrow> CheckerFile
    \<Rightarrow> C1visualizerFile \<Rightarrow> string option \<Rightarrow> bool \<Rightarrow> Logger \<Rightarrow> (error \<times> Logger) + Logger" where
  "MatchFiles M E fs checkerFile c1File targetArch debuggableMode lg =
     MatchFiles_loop M E fs c1File targetArch debuggableMode (testCases checkerFile) lg"

section \<open>Notions of the specification\<close>

text \<open>
  The state invariant of a run: the cached length is the length of the pass, the cursor
  lies within the pass, and each queue holds statements of its own variant only.
\<close>

definition wellFormed :: "ExecutionState \<Rightarrow> bool" where
  "wellFormed s \<longleftrightarrow>
     c1Length s = int (length (body (c1Pass s))) \<and> 0 \<le> cursor s \<and> cursor s \<le> c1Length s \<and>
     (\<forall>st\<in>set (dagQueue s). variant st = DAG) \<and> (\<forall>st\<in>set (notQueue s). variant st = Not')"

text \<open>
  The specification's words for a single search: line \<open>i\<close> is the earliest line of the
  scope that is not claimed and satisfies the statement under the bindings \<open>vs\<close>, and
  \<open>nv\<close> are the bindings that the match produces.
\<close>

definition earliestMatch :: "MatchLines \<Rightarrow> TestStatement \<Rightarrow> C1visualizerPass \<Rightarrow> MatchScope
    \<Rightarrow> Variables option \<Rightarrow> int list \<Rightarrow> int \<Rightarrow> Variables \<Rightarrow> bool" where
  "earliestMatch M statement p sc vs claimed i nv \<longleftrightarrow>
     start sc \<le> i \<and> i < stop sc \<and> i \<notin> set claimed \<and>
     M statement (body p ! nat i) vs = Some nv \<and>
     (\<forall>j. start sc \<le> j \<and> j < i \<longrightarrow> j \<in> set claimed \<or> M statement (body p ! nat j) vs = None)"

text \<open>
  The specification's words for a DAG group: the statements are taken in list order,
  each matches the earliest unclaimed line of the scope under the bindings accumulated
  so far, and claims it.  \<open>is\<close> are the matched indices and \<open>nvs\<close> the bindings after
  each statement, both in group order.
\<close>

fun dagGroupMatch :: "MatchLines \<Rightarrow> C1visualizerPass \<Rightarrow> MatchScope \<Rightarrow> TestStatement list
    \<Rightarrow> Variables option \<Rightarrow> int list \<Rightarrow> int list \<Rightarrow> Variables list \<Rightarrow> bool" where
  "dagGroupMatch M p sc [] vs claimed [] [] = True"
| "dagGroupMatch M p sc (statement # rest) vs claimed (i # is) (nv # nvs) =
     (earliestMatch M statement p sc vs claimed i nv \<and>
      dagGroupMatch M p sc rest (Some nv) (claimed @ [i]) is nvs)"
| "dagGroupMatch M p sc q vs claimed is nvs = False"

section \<open>Sample collaborators\<close>

text \<open>
  A line matcher and an evaluator on which the theorems are exercised: a statement
  matches the line equal to its payload and binds the variable \<open>last\<close> to it; an
  expression is a variable name, true when the variable is bound to \<open>true\<close>.
\<close>

definition sampleMatchLines :: MatchLines where
  "sampleMatchLines statement line vs =
     (if payload statement = line
      then Some ((case vs of None \<Rightarrow> Map.empty | Some m \<Rightarrow> m)(''last'' \<mapsto> line))
      else None)"

definition sampleEvaluateLine :: EvaluateLine where
  "sampleEvaluateLine statement vs =
     (case vs of
        None \<Rightarrow> EvalUnbound
      | Some m \<Rightarrow> (case m (payload statement) of
                     None \<Rightarrow> EvalUnbound
                   | Some v \<Rightarrow> EvalReturns (v = ''true'')))"

text \<open>
  A pass of three lines with base line number 10, statements given by variant and
  payload, states of a run on that pass, a test case for it, and a dump file holding it.
\<close>

definition samplePass :: C1visualizerPass where
  "samplePass = \<lparr>name = ''pass'', body = [''a'', ''b'', ''c''], startLineNo = 10\<rparr>"

definition stmt :: "Variant \<Rightarrow> string \<Rightarrow> TestStatement" where
  "stmt v text = \<lparr>variant = v, payload = text\<rparr>"

definition sampleState :: "int \<Rightarrow> TestStatement list \<Rightarrow> TestStatement list \<Rightarrow> ExecutionState" where
  "sampleState c dq nq =
     \<lparr>cursor = c, c1Pass = samplePass, c1Length = 3, variables = Some Map.empty,
      dagQueue = dq, notQueue = nq\<rparr>"

definition sampleTestCase :: "TestStatement list \<Rightarrow> TestCase" where
  "sampleTestCase sts =
     \<lparr>tc_name = ''pass'', statements = sts, testArch = None, forDebuggable = False,
      tc_fileName = ''Test.java'', tc_startLineNo = 1\<rparr>"

definition sampleC1File :: C1visualizerFile where
  "sampleC1File = \<lparr>fileName = ''dump.cfg'', passes = [samplePass]\<rparr>"

definition sampleFiles :: "string \<rightharpoonup> string" where
  "sampleFiles = [''dump.cfg'' \<mapsto> ''begin_cfg'']"

section \<open>The line search finds the earliest match\<close>

lemma getitem_in_range: "0 \<le> i \<Longrightarrow> i < int (length xs) \<Longrightarrow> getitem xs i = Some (xs ! nat i)"
  by (simp add: getitem_def)

lemma scanLines_upto:
  "0 \<le> a \<Longrightarrow> b < int (length (body p)) \<Longrightarrow>
   (case scanLines M st p vs excl [a..b] of
      Inl e \<Rightarrow> False
    | Inr None \<Rightarrow> (\<forall>j. a \<le> j \<and> j \<le> b \<longrightarrow> j \<in> set excl \<or> M st (body p ! nat j) vs = None)
    | Inr (Some m) \<Rightarrow> (\<exists>i nv. m = \<lparr>scope = \<lparr>start = i, stop = i\<rparr>, vars = Some nv\<rparr> \<and>
         a \<le> i \<and> i \<le> b \<and> i \<notin> set excl \<and> M st (body p ! nat i) vs = Some nv \<and>
         (\<forall>j. a \<le> j \<and> j < i \<longrightarrow> j \<in> set excl \<or> M st (body p ! nat j) vs = None)))"
proof (induction a b rule: upto.induct)
  case (1 a b)
  show ?case
  proof (cases "a \<le> b")
    case False
    then show ?thesis by auto
  next
    case True
    have step: "[a..b] = a # [a + 1..b]" using True by (simp add: upto_rec1)
    have IH: "(case scanLines M st p vs excl [a + 1..b] of
      Inl e \<Rightarrow> False
    | Inr None \<Rightarrow> (\<forall>j. a + 1 \<le> j \<and> j \<le> b \<longrightarrow> j \<in> set excl \<or> M st (body p ! nat j) vs = None)
    | Inr (Some m) \<Rightarrow> (\<exists>i nv. m = \<lparr>scope = \<lparr>start = i, stop = i\<rparr>, vars = Some nv\<rparr> \<and>
         a + 1 \<le> i \<and> i \<le> b \<and> i \<notin> set excl \<and> M st (body p ! nat i) vs = Some nv \<and>
         (\<forall>j. a + 1 \<le> j \<and> j < i \<longrightarrow> j \<in> set excl \<or> M st (body p ! nat j) vs = None)))"
      using 1 True by simp
    have gi: "getitem (body p) a = Some (body p ! nat a)"
      using 1(2,3) True by (simp add: getitem_in_range)
    have low: "\<And>j. a \<le> j \<Longrightarrow> j = a \<or> a + 1 \<le> j" by arith
    show ?thesis
    proof (cases "a \<in> set excl \<or> M st (body p ! nat a) vs = None")
      case skip: True
      then have eq: "scanLines M st p vs excl [a..b] = scanLines M st p vs excl [a + 1..b]"
        by (auto simp: step gi)
      show ?thesis unfolding eq using IH skip
        apply (cases "scanLines M st p vs excl [a + 1..b]")
         apply simp
        subgoal for r
          apply (cases r)
           apply simp
           apply (metis low)
          apply simp
          apply (elim exE conjE)
          subgoal for m i nv
            apply (rule exI[of _ i])
            apply simp
            apply (metis low)
            done
          done
        done
    next
      case hit: False
      then obtain nv where nv: "M st (body p ! nat a) vs = Some nv" and ne: "a \<notin> set excl" by auto
      have eq: "scanLines M st p vs excl [a..b] = Inr (Some \<lparr>scope = \<lparr>start = a, stop = a\<rparr>, vars = Some nv\<rparr>)"
        by (simp add: step gi nv ne)
      show ?thesis unfolding eq using True nv ne by auto
    qed
  qed
qed

lemma findMatchingLine_result:
  assumes "0 \<le> start sc" and "stop sc \<le> int (length (body p))"
  shows "(\<exists>i nv. earliestMatch M st p sc vs excl i nv \<and>
            findMatchingLine M st p sc vs excl = Inr \<lparr>scope = \<lparr>start = i, stop = i\<rparr>, vars = Some nv\<rparr>)
       \<or> ((\<forall>j. start sc \<le> j \<and> j < stop sc \<longrightarrow> j \<in> set excl \<or> M st (body p ! nat j) vs = None) \<and>
            findMatchingLine M st p sc vs excl = Inl (MatchFailedException st (start sc) vs))"
proof -
  have b: "stop sc - 1 < int (length (body p))" using assms(2) by simp
  note sl = scanLines_upto[OF assms(1) b, where M=M and st=st and vs=vs and excl=excl]
  show ?thesis
  proof (cases "scanLines M st p vs excl [start sc..stop sc - 1]")
    case (Inl e)
    then show ?thesis using sl by simp
  next
    case (Inr r)
    show ?thesis
    proof (cases r)
      case None
      then show ?thesis using sl Inr by (auto simp: findMatchingLine_def)
    next
      case (Some m)
      then show ?thesis using sl Inr
        by (auto simp: findMatchingLine_def earliestMatch_def)
    qed
  qed
qed

lemma earliestMatch_unique:
  assumes "earliestMatch M st p sc vs excl i nv" and "earliestMatch M st p sc vs excl i' nv'"
  shows "i = i' \<and> nv = nv'"
proof -
  have "\<not> i < i'" using assms unfolding earliestMatch_def by (metis option.distinct(1))
  moreover have "\<not> i' < i" using assms unfolding earliestMatch_def by (metis option.distinct(1))
  ultimately have "i = i'" by simp
  then show ?thesis using assms unfolding earliestMatch_def by simp
qed

lemma findMatchingLine_found:
  assumes "0 \<le> start sc" and "stop sc \<le> int (length (body p))"
    and "earliestMatch M st p sc vs excl i nv"
  shows "findMatchingLine M st p sc vs excl = Inr \<lparr>scope = \<lparr>start = i, stop = i\<rparr>, vars = Some nv\<rparr>"
proof -
  from findMatchingLine_result[OF assms(1,2), where M=M and st=st and vs=vs and excl=excl]
  show ?thesis
  proof (elim disjE exE conjE)
    fix i' nv'
    assume e: "earliestMatch M st p sc vs excl i' nv'"
      and f: "findMatchingLine M st p sc vs excl = Inr \<lparr>scope = \<lparr>start = i', stop = i'\<rparr>, vars = Some nv'\<rparr>"
    from earliestMatch_unique[OF assms(3) e] f show ?thesis by simp
  next
    assume "\<forall>j. start sc \<le> j \<and> j < stop sc \<longrightarrow> j \<in> set excl \<or> M st (body p ! nat j) vs = None"
    then have False using assms(3) unfolding earliestMatch_def by (metis option.distinct(1))
    then show ?thesis ..
  qed
qed


lemma notScanLines_upto:
  "0 \<le> a \<Longrightarrow> b < int (length (body p)) \<Longrightarrow>
   (case notScanLines M st p vs [a..b] of
      Inr u \<Rightarrow> (\<forall>j. a \<le> j \<and> j \<le> b \<longrightarrow> M st (body p ! nat j) vs = None)
    | Inl e \<Rightarrow> (\<exists>i. e = MatchFailedException st i vs \<and> a \<le> i \<and> i \<le> b \<and>
         M st (body p ! nat i) vs \<noteq> None))"
proof (induction a b rule: upto.induct)
  case (1 a b)
  show ?case
  proof (cases "a \<le> b")
    case False
    then show ?thesis by auto
  next
    case True
    have step: "[a..b] = a # [a + 1..b]" using True by (simp add: upto_rec1)
    have IH: "(case notScanLines M st p vs [a + 1..b] of
      Inr u \<Rightarrow> (\<forall>j. a + 1 \<le> j \<and> j \<le> b \<longrightarrow> M st (body p ! nat j) vs = None)
    | Inl e \<Rightarrow> (\<exists>i. e = MatchFailedException st i vs \<and> a + 1 \<le> i \<and> i \<le> b \<and>
         M st (body p ! nat i) vs \<noteq> None))"
      using 1 True by simp
    have gi: "getitem (body p) a = Some (body p ! nat a)"
      using 1(2,3) True by (simp add: getitem_in_range)
    have low: "\<And>j. a \<le> j \<Longrightarrow> j = a \<or> a + 1 \<le> j" by arith
    show ?thesis
    proof (cases "M st (body p ! nat a) vs = None")
      case skip: True
      then have eq: "notScanLines M st p vs [a..b] = notScanLines M st p vs [a + 1..b]"
        by (simp add: step gi)
      show ?thesis unfolding eq using IH skip
        apply (cases "notScanLines M st p vs [a + 1..b]")
         apply simp
         apply (elim exE conjE)
        subgoal for e i
          apply (rule exI[of _ i])
          apply simp
          done
        apply simp
        apply (metis low)
        done
    next
      case hit: False
      have eq: "notScanLines M st p vs [a..b] = Inl (MatchFailedException st a vs)"
        using hit by (simp add: step gi)
      show ?thesis unfolding eq using True hit by auto
    qed
  qed
qed

lemma notLoop_result:
  assumes "0 \<le> start sc" and "stop sc \<le> int (length (body p))"
  shows "\<forall>st\<in>set q. variant st = Not' \<Longrightarrow>
   (case notLoop M p vs sc q of
      Inr u \<Rightarrow> (\<forall>st\<in>set q. \<forall>j. start sc \<le> j \<and> j < stop sc \<longrightarrow> M st (body p ! nat j) vs = None)
    | Inl e \<Rightarrow> (\<exists>st i. e = MatchFailedException st i vs \<and> st \<in> set q \<and> start sc \<le> i \<and> i < stop sc \<and>
         M st (body p ! nat i) vs \<noteq> None))"
proof (induction q)
  case Nil
  then show ?case by simp
next
  case (Cons st q)
  have b: "stop sc - 1 < int (length (body p))" using assms(2) by simp
  note ns = notScanLines_upto[OF assms(1) b, where M=M and st=st and vs=vs]
  have v: "variant st = Not'" using Cons.prems by simp
  have IH: "(case notLoop M p vs sc q of
      Inr u \<Rightarrow> (\<forall>st\<in>set q. \<forall>j. start sc \<le> j \<and> j < stop sc \<longrightarrow> M st (body p ! nat j) vs = None)
    | Inl e \<Rightarrow> (\<exists>st i. e = MatchFailedException st i vs \<and> st \<in> set q \<and> start sc \<le> i \<and> i < stop sc \<and>
         M st (body p ! nat i) vs \<noteq> None))"
    using Cons by simp
  show ?case
  proof (cases "notScanLines M st p vs [start sc..stop sc - 1]")
    case (Inl e)
    then have eq: "notLoop M p vs sc (st # q) = Inl e" using v by simp
    show ?thesis unfolding eq using ns Inl by auto
  next
    case (Inr u)
    then have eq: "notLoop M p vs sc (st # q) = notLoop M p vs sc q" using v by simp
    have none: "\<forall>j. start sc \<le> j \<and> j < stop sc \<longrightarrow> M st (body p ! nat j) vs = None"
      using ns Inr by auto
    show ?thesis unfolding eq using IH none
      by (cases "notLoop M p vs sc q") auto
  qed
qed

lemma handleNotQueue_result:
  assumes "0 \<le> start sc" and "stop sc \<le> int (length (body (c1Pass s)))"
    and "\<forall>st\<in>set (notQueue s). variant st = Not'"
  shows "(if \<exists>st\<in>set (notQueue s). \<exists>i. start sc \<le> i \<and> i < stop sc \<and>
              M st (body (c1Pass s) ! nat i) (variables s) \<noteq> None
          then \<exists>st i. st \<in> set (notQueue s) \<and> start sc \<le> i \<and> i < stop sc \<and>
              M st (body (c1Pass s) ! nat i) (variables s) \<noteq> None \<and>
              handleNotQueue M sc s = Inl (MatchFailedException st i (variables s), s)
          else handleNotQueue M sc s = Inr (s\<lparr>notQueue := []\<rparr>))"
proof -
  note nl = notLoop_result[OF assms(1,2), where q="notQueue s" and M=M and vs="variables s", OF assms(3)]
  show ?thesis
  proof (cases "notLoop M (c1Pass s) (variables s) sc (notQueue s)")
    case (Inl e)
    then show ?thesis using nl by (auto simp: handleNotQueue_def)
  next
    case (Inr u)
    then show ?thesis using nl by (auto simp: handleNotQueue_def)
  qed
qed

lemma handleNotQueue_state:
  "handleNotQueue M sc s = Inl (e, s') \<Longrightarrow> s' = s"
  "handleNotQueue M sc s = Inr s' \<Longrightarrow> s' = s\<lparr>notQueue := []\<rparr>"
  by (auto simp: handleNotQueue_def split: sum.splits)

section \<open>The loop over a DAG group\<close>

lemma dagGroupMatch_ConsE:
  assumes "dagGroupMatch M p sc (st # q) vs claimed ms nvs"
  obtains i ms' nv nvs' where "ms = i # ms'" and "nvs = nv # nvs'"
    and "earliestMatch M st p sc vs claimed i nv"
    and "dagGroupMatch M p sc q (Some nv) (claimed @ [i]) ms' nvs'"
  using assms by (cases ms; cases nvs) auto

lemma dagGroupMatch_NilD:
  "dagGroupMatch M p sc [] vs claimed ms nvs \<Longrightarrow> ms = [] \<and> nvs = []"
  by (cases ms; cases nvs) auto

lemma dagLoop_complete:
  assumes "0 \<le> start sc" and "stop sc \<le> int (length (body p))"
  shows "\<forall>st\<in>set q. variant st = DAG \<Longrightarrow> dagGroupMatch M p sc q vs claimed ms nvs \<Longrightarrow>
    dagLoop M p sc q vs claimed = Inr (claimed @ ms, last (vs # map Some nvs))"
proof (induction q arbitrary: vs claimed ms nvs)
  case Nil
  then show ?case using dagGroupMatch_NilD[of M p sc vs claimed ms nvs] by simp
next
  case (Cons st q)
  from Cons.prems(2) obtain i ms' nv nvs' where ms: "ms = i # ms'" and nvs: "nvs = nv # nvs'"
    and em: "earliestMatch M st p sc vs claimed i nv"
    and rest: "dagGroupMatch M p sc q (Some nv) (claimed @ [i]) ms' nvs'"
    by (rule dagGroupMatch_ConsE)
  have f: "findMatchingLine M st p sc vs claimed = Inr \<lparr>scope = \<lparr>start = i, stop = i\<rparr>, vars = Some nv\<rparr>"
    by (rule findMatchingLine_found[OF assms em])
  have nc: "i \<notin> set claimed" using em by (simp add: earliestMatch_def)
  have v: "variant st = DAG" using Cons.prems(1) by simp
  have "dagLoop M p sc q (Some nv) (claimed @ [i]) = Inr ((claimed @ [i]) @ ms', last (Some nv # map Some nvs'))"
    using Cons.IH[OF _ rest] Cons.prems(1) by simp
  then show ?case using f nc v by (simp add: ms nvs)
qed

lemma dagLoop_sound:
  assumes "0 \<le> start sc" and "stop sc \<le> int (length (body p))"
  shows "\<forall>st\<in>set q. variant st = DAG \<Longrightarrow> dagLoop M p sc q vs claimed = Inr (ml, vs') \<Longrightarrow>
    \<exists>ms nvs. dagGroupMatch M p sc q vs claimed ms nvs \<and> ml = claimed @ ms \<and>
       vs' = last (vs # map Some nvs)"
proof (induction q arbitrary: vs claimed)
  case Nil
  then show ?case by (intro exI[of _ "[]"]) simp
next
  case (Cons st q)
  have v: "variant st = DAG" using Cons.prems(1) by simp
  from findMatchingLine_result[OF assms, where M=M and st=st and vs=vs and excl=claimed]
  show ?case
  proof (elim disjE exE conjE)
    fix i nv
    assume em: "earliestMatch M st p sc vs claimed i nv"
      and f: "findMatchingLine M st p sc vs claimed = Inr \<lparr>scope = \<lparr>start = i, stop = i\<rparr>, vars = Some nv\<rparr>"
    have nc: "i \<notin> set claimed" using em by (simp add: earliestMatch_def)
    have "dagLoop M p sc q (Some nv) (claimed @ [i]) = Inr (ml, vs')"
      using Cons.prems(2) f nc v by simp
    from Cons.IH[OF _ this] Cons.prems(1)
    obtain ms nvs where g: "dagGroupMatch M p sc q (Some nv) (claimed @ [i]) ms nvs"
      and ml: "ml = (claimed @ [i]) @ ms" and vs': "vs' = last (Some nv # map Some nvs)"
      by auto
    show ?thesis
      by (intro exI[of _ "i # ms"] exI[of _ "nv # nvs"]) (simp add: em g ml vs')
  next
    assume "findMatchingLine M st p sc vs claimed = Inl (MatchFailedException st (start sc) vs)"
    then have False using Cons.prems(2) v by simp
    then show ?thesis ..
  qed
qed

lemma dagGroupMatch_props:
  "dagGroupMatch M p sc q vs claimed ms nvs \<Longrightarrow>
     length ms = length q \<and> length nvs = length q \<and>
     (distinct claimed \<longrightarrow> distinct (claimed @ ms)) \<and>
     (\<forall>i\<in>set ms. start sc \<le> i \<and> i < stop sc)"
proof (induction q arbitrary: vs claimed ms nvs)
  case Nil
  then show ?case using dagGroupMatch_NilD[of M p sc vs claimed ms nvs] by simp
next
  case (Cons st q)
  from Cons.prems obtain i ms' nv nvs' where ms: "ms = i # ms'" and nvs: "nvs = nv # nvs'"
    and em: "earliestMatch M st p sc vs claimed i nv"
    and rest: "dagGroupMatch M p sc q (Some nv) (claimed @ [i]) ms' nvs'"
    by (rule dagGroupMatch_ConsE)
  have nc: "i \<notin> set claimed" and rg: "start sc \<le> i" "i < stop sc"
    using em by (simp_all add: earliestMatch_def)
  from Cons.IH[OF rest] show ?case using nc rg by (auto simp: ms nvs)
qed

lemma py_min_Min: "ms \<noteq> [] \<Longrightarrow> py_min ms = Some (Min (set ms))"
proof (cases ms)
  case (Cons x xs)
  then show ?thesis using Min.set_eq_fold[of x xs] by simp
qed simp

lemma py_max_Max: "ms \<noteq> [] \<Longrightarrow> py_max ms = Some (Max (set ms))"
proof (cases ms)
  case (Cons x xs)
  then show ?thesis using Max.set_eq_fold[of x xs] by simp
qed simp

lemma handleDagQueue_group:
  assumes "0 \<le> cursor s" and "c1Length s = int (length (body (c1Pass s)))"
    and "\<forall>st\<in>set (dagQueue s). variant st = DAG"
    and "dagQueue s \<noteq> []"
    and "dagGroupMatch M (c1Pass s) \<lparr>start = cursor s, stop = c1Length s\<rparr> (dagQueue s) (variables s) [] ms nvs"
  shows "handleDagQueue M \<lparr>start = cursor s, stop = c1Length s\<rparr> s =
       (case handleNotQueue M \<lparr>start = cursor s, stop = Min (set ms)\<rparr> (s\<lparr>dagQueue := []\<rparr>) of
          Inl e \<Rightarrow> Inl e
        | Inr s1 \<Rightarrow> Inr (s1\<lparr>cursor := Max (set ms) + 1, variables := Some (last nvs)\<rparr>))"
proof -
  let ?sc = "\<lparr>start = cursor s, stop = c1Length s\<rparr>"
  have b1: "0 \<le> start ?sc" and b2: "stop ?sc \<le> int (length (body (c1Pass s)))"
    using assms(1,2) by simp_all
  note props = dagGroupMatch_props[OF assms(5)]
  have ne: "ms \<noteq> []" "nvs \<noteq> []" using props assms(4) by auto
  have loop: "dagLoop M (c1Pass s) ?sc (dagQueue s) (variables s) [] = Inr (ms, Some (last nvs))"
    using dagLoop_complete[OF b1 b2 assms(3) assms(5)] ne by (simp add: last_map)
  have "Max (set ms) \<in> set ms" using ne by (intro Max_in) simp_all
  then have le: "cursor s \<le> Max (set ms)" using props by auto
  show ?thesis
    using loop le assms(4)
    by (simp add: handleDagQueue_def py_min_Min[OF ne(1)] py_max_Max[OF ne(1)] moveCursor_def
        split: sum.splits)
qed

lemma handleDagQueue_success:
  assumes "0 \<le> cursor s" and "c1Length s = int (length (body (c1Pass s)))"
    and "\<forall>st\<in>set (dagQueue s). variant st = DAG"
    and "dagQueue s \<noteq> []"
    and "handleDagQueue M \<lparr>start = cursor s, stop = c1Length s\<rparr> s = Inr s'"
  shows "\<exists>ms nvs. dagGroupMatch M (c1Pass s) \<lparr>start = cursor s, stop = c1Length s\<rparr> (dagQueue s) (variables s) [] ms nvs"
proof -
  let ?sc = "\<lparr>start = cursor s, stop = c1Length s\<rparr>"
  have b1: "0 \<le> start ?sc" and b2: "stop ?sc \<le> int (length (body (c1Pass s)))"
    using assms(1,2) by simp_all
  from assms(4,5) obtain ml vs' where "dagLoop M (c1Pass s) ?sc (dagQueue s) (variables s) [] = Inr (ml, vs')"
    by (auto simp: handleDagQueue_def split: sum.splits)
  from dagLoop_sound[OF b1 b2 assms(3) this] show ?thesis by auto
qed

section \<open>What each handler leaves behind\<close>

lemma finalState_Inl: "finalState (Inl a) = snd a"
  by (cases a) simp

lemma moveCursor_Inl: "moveCursor M m s = Inl (e, s') \<Longrightarrow> s' = s"
  by (auto simp: moveCursor_def handleNotQueue_def split: if_splits sum.splits)

lemma moveCursor_Inr:
  "moveCursor M m s = Inr s' \<Longrightarrow>
     cursor s \<le> stop (scope m) \<and>
     s' = s\<lparr>cursor := stop (scope m) + 1, variables := vars m, notQueue := []\<rparr>"
  by (auto simp: moveCursor_def handleNotQueue_def split: if_splits sum.splits)

lemma handleDagQueue_Inl:
  "handleDagQueue M sc s = Inl (e, s') \<Longrightarrow> s' = s \<or> s' = s\<lparr>dagQueue := []\<rparr>"
  by (auto simp: handleDagQueue_def split: if_splits sum.splits option.splits prod.splits
      dest: moveCursor_Inl)

lemma handleDagQueue_Inr:
  "handleDagQueue M sc s = Inr s' \<Longrightarrow>
     (dagQueue s = [] \<and> s' = s) \<or>
     (dagQueue s \<noteq> [] \<and>
      (\<exists>ml vs lo hi. dagLoop M (c1Pass s) sc (dagQueue s) (variables s) [] = Inr (ml, vs) \<and>
         py_min ml = Some lo \<and> py_max ml = Some hi \<and> cursor s \<le> hi \<and>
         s' = s\<lparr>cursor := hi + 1, variables := vs, dagQueue := [], notQueue := []\<rparr>))"
  by (auto simp: handleDagQueue_def split: if_splits sum.splits option.splits prod.splits
      dest!: moveCursor_Inr)

lemma handleInOrder_Inl: "handleInOrder M st s = Inl (e, s') \<Longrightarrow> s' = s"
  by (auto simp: handleInOrder_def split: sum.splits dest: moveCursor_Inl)

lemma handleNextLine_Inl: "handleNextLine M st s = Inl (e, s') \<Longrightarrow> s' = s"
  by (auto simp: handleNextLine_def split: sum.splits dest: moveCursor_Inl)

lemma handleEval_state: "finalState (handleEval E st s) = s"
  by (auto simp: handleEval_def split: EvalResult.splits)

lemma handleEOF_Inl: "handleEOF M s = Inl (e, s') \<Longrightarrow> s' = s"
  by (auto simp: handleEOF_def dest: moveCursor_Inl)

lemma moveCursor_mono: "cursor s \<le> cursor (finalState (moveCursor M m s))"
proof (cases "moveCursor M m s")
  case (Inl a)
  then show ?thesis using moveCursor_Inl[of M m s "fst a" "snd a"] by (simp add: finalState_Inl)
next
  case (Inr s')
  then show ?thesis using moveCursor_Inr[OF Inr] by simp
qed

lemma handleDagQueue_mono: "cursor s \<le> cursor (finalState (handleDagQueue M sc s))"
proof (cases "handleDagQueue M sc s")
  case (Inl a)
  then show ?thesis using handleDagQueue_Inl[of M sc s "fst a" "snd a"] by (auto simp: finalState_Inl)
next
  case (Inr s')
  then show ?thesis using handleDagQueue_Inr[OF Inr] by auto
qed

lemma handleInOrder_mono: "cursor s \<le> cursor (finalState (handleInOrder M st s))"
  using moveCursor_mono by (simp add: handleInOrder_def split: sum.splits)

lemma handleNextLine_mono: "cursor s \<le> cursor (finalState (handleNextLine M st s))"
  using moveCursor_mono by (simp add: handleNextLine_def split: sum.splits)

lemma dispatch_mono: "cursor s \<le> cursor (finalState (dispatch M E statement s))"
proof (cases statement)
  case None
  then show ?thesis using moveCursor_mono by (simp add: handleEOF_def)
next
  case (Some st)
  then show ?thesis
    using handleInOrder_mono[of s M st] handleNextLine_mono[of s M st] handleEval_state[of E st s]
    by (cases "variant st") simp_all
qed

lemma handle_mono: "cursor s \<le> cursor (finalState (handle M E statement s))"
proof (cases "map_option variant statement \<noteq> Some DAG")
  case False
  then show ?thesis using dispatch_mono by (simp add: handle_def)
next
  case True
  show ?thesis
  proof (cases "handleDagQueue M \<lparr>start = cursor s, stop = c1Length s\<rparr> s")
    case (Inl a)
    then show ?thesis
      using True handleDagQueue_mono[of s M "\<lparr>start = cursor s, stop = c1Length s\<rparr>"]
      by (simp add: handle_def)
  next
    case (Inr s1)
    have "cursor s \<le> cursor s1"
      using Inr handleDagQueue_mono[of s M "\<lparr>start = cursor s, stop = c1Length s\<rparr>"] by simp
    also have "cursor s1 \<le> cursor (finalState (dispatch M E statement s1))"
      by (rule dispatch_mono)
    finally show ?thesis using True Inr by (simp add: handle_def)
  qed
qed

lemma handleAll_mono: "cursor s \<le> cursor (finalState (handleAll M E sts s))"
proof (induction sts arbitrary: s)
  case Nil
  show ?case by simp
next
  case (Cons statement rest)
  show ?case
  proof (cases "handle M E statement s")
    case (Inl a)
    then show ?thesis using handle_mono[of s M E statement] by simp
  next
    case (Inr s1)
    have "cursor s \<le> cursor s1" using Inr handle_mono[of s M E statement] by simp
    also have "cursor s1 \<le> cursor (finalState (handleAll M E rest s1))" by (rule Cons.IH)
    finally show ?thesis using Inr by simp
  qed
qed

lemma scanLines_Some:
  "scanLines M st p vs excl is = Inr (Some m) \<Longrightarrow>
     \<exists>i nv. m = \<lparr>scope = \<lparr>start = i, stop = i\<rparr>, vars = Some nv\<rparr> \<and> i \<in> set is \<and>
       i \<notin> set excl \<and> getitem (body p) i \<noteq> None"
proof (induction "is")
  case Nil
  then show ?case by simp
next
  case (Cons i rest)
  then show ?case
    by (auto split: if_splits option.splits)
qed

lemma findMatchingLine_Inr:
  assumes "findMatchingLine M st p sc vs excl = Inr m"
  shows "\<exists>i nv. m = \<lparr>scope = \<lparr>start = i, stop = i\<rparr>, vars = Some nv\<rparr> \<and> start sc \<le> i \<and>
       i < stop sc \<and> i \<notin> set excl \<and> getitem (body p) i \<noteq> None"
proof -
  from assms have "scanLines M st p vs excl [start sc..stop sc - 1] = Inr (Some m)"
    by (auto simp: findMatchingLine_def split: sum.splits option.splits)
  from scanLines_Some[OF this] show ?thesis by auto
qed

lemma dagLoop_range:
  "dagLoop M p sc q vs claimed = Inr (ml, vs') \<Longrightarrow>
     length ml = length claimed + length q \<and>
     set ml \<subseteq> set claimed \<union> {i. start sc \<le> i \<and> i < stop sc}"
proof (induction q arbitrary: vs claimed)
  case Nil
  then show ?case by auto
next
  case (Cons st q)
  from Cons.prems obtain m where f: "findMatchingLine M st p sc vs claimed = Inr m"
    and rest: "dagLoop M p sc q (vars m) (claimed @ [start (scope m)]) = Inr (ml, vs')"
    by (auto split: if_splits sum.splits)
  from findMatchingLine_Inr[OF f] have "start sc \<le> start (scope m) \<and> start (scope m) < stop sc"
    by auto
  then show ?case using Cons.IH[OF rest] by auto
qed

lemma py_min_in: "py_min ml = Some lo \<Longrightarrow> lo \<in> set ml"
proof (cases ml)
  case (Cons x xs)
  assume "py_min ml = Some lo"
  then have "lo = Min (set ml)" using Cons Min.set_eq_fold[of x xs] by simp
  then show ?thesis using Cons Min_in[of "set ml"] by simp
qed simp

lemma py_max_in: "py_max ml = Some hi \<Longrightarrow> hi \<in> set ml"
proof (cases ml)
  case (Cons x xs)
  assume "py_max ml = Some hi"
  then have "hi = Max (set ml)" using Cons Max.set_eq_fold[of x xs] by simp
  then show ?thesis using Cons Max_in[of "set ml"] by simp
qed simp

lemma moveCursor_wf:
  assumes "wellFormed s" and "stop (scope m) < c1Length s"
  shows "wellFormed (finalState (moveCursor M m s))"
proof (cases "moveCursor M m s")
  case (Inl a)
  then show ?thesis using assms(1) moveCursor_Inl[of M m s "fst a" "snd a"]
    by (simp add: finalState_Inl)
next
  case (Inr s')
  from moveCursor_Inr[OF Inr] show ?thesis using assms Inr by (auto simp: wellFormed_def)
qed

lemma handleDagQueue_wf:
  assumes "wellFormed s"
  shows "wellFormed (finalState (handleDagQueue M \<lparr>start = cursor s, stop = c1Length s\<rparr> s))"
proof (cases "handleDagQueue M \<lparr>start = cursor s, stop = c1Length s\<rparr> s")
  case (Inl a)
  obtain e s' where a: "a = (e, s')" by (cases a)
  from handleDagQueue_Inl[OF Inl[unfolded a]] show ?thesis
    using assms Inl a by (auto simp: wellFormed_def)
next
  case (Inr s')
  from handleDagQueue_Inr[OF Inr] show ?thesis
  proof (elim disjE conjE exE)
    fix ml vs lo hi
    assume loop: "dagLoop M (c1Pass s) \<lparr>start = cursor s, stop = c1Length s\<rparr> (dagQueue s) (variables s) [] = Inr (ml, vs)"
      and hi: "py_max ml = Some hi" and le: "cursor s \<le> hi"
      and s': "s' = s\<lparr>cursor := hi + 1, variables := vs, dagQueue := [], notQueue := []\<rparr>"
    from dagLoop_range[OF loop] py_max_in[OF hi] have "hi < c1Length s" by auto
    then show ?thesis using assms le Inr s' by (auto simp: wellFormed_def)
  qed (use assms Inr in simp)
qed

lemma handleInOrder_wf:
  assumes "wellFormed s"
  shows "wellFormed (finalState (handleInOrder M st s))"
proof (cases "findMatchingLine M st (c1Pass s) \<lparr>start = cursor s, stop = c1Length s\<rparr> (variables s) []")
  case (Inl e)
  then show ?thesis using assms by (simp add: handleInOrder_def)
next
  case (Inr m)
  from findMatchingLine_Inr[OF Inr] have "stop (scope m) < c1Length s" by auto
  from moveCursor_wf[OF assms this] show ?thesis using Inr by (simp add: handleInOrder_def)
qed

lemma handleNextLine_wf:
  assumes "wellFormed s"
  shows "wellFormed (finalState (handleNextLine M st s))"
proof (cases "findMatchingLine M st (c1Pass s) \<lparr>start = cursor s, stop = cursor s + 1\<rparr> (variables s) []")
  case (Inl e)
  then show ?thesis using assms by (simp add: handleNextLine_def)
next
  case (Inr m)
  from findMatchingLine_Inr[OF Inr] obtain i where i: "stop (scope m) = i" "cursor s \<le> i" "i < cursor s + 1"
    and g: "getitem (body (c1Pass s)) i \<noteq> None" by auto
  have "0 \<le> i" using i assms by (simp add: wellFormed_def)
  then have "i < int (length (body (c1Pass s)))" using g by (auto simp: getitem_def split: if_splits)
  then have "stop (scope m) < c1Length s" using i assms by (simp add: wellFormed_def)
  from moveCursor_wf[OF assms this] show ?thesis using Inr by (simp add: handleNextLine_def)
qed

lemma dispatch_wf:
  assumes "wellFormed s"
  shows "wellFormed (finalState (dispatch M E (Some st) s))"
proof (cases "variant st")
  case InOrder
  then show ?thesis using handleInOrder_wf[OF assms] by simp
next
  case NextLine
  then show ?thesis using handleNextLine_wf[OF assms] by simp
next
  case DAG
  then show ?thesis using assms by (simp add: wellFormed_def)
next
  case Not'
  then show ?thesis using assms by (simp add: wellFormed_def)
next
  case Eval
  then show ?thesis using assms by (simp add: handleEval_state)
qed

lemma handle_wf:
  assumes "wellFormed s"
  shows "wellFormed (finalState (handle M E (Some st) s))"
proof (cases "variant st = DAG")
  case True
  then show ?thesis using dispatch_wf[OF assms, of M E st] by (simp add: handle_def)
next
  case False
  show ?thesis
  proof (cases "handleDagQueue M \<lparr>start = cursor s, stop = c1Length s\<rparr> s")
    case (Inl a)
    then show ?thesis using False handleDagQueue_wf[OF assms, of M] by (simp add: handle_def)
  next
    case (Inr s1)
    then have "wellFormed s1" using handleDagQueue_wf[OF assms, of M] by simp
    from dispatch_wf[OF this] show ?thesis using False Inr by (simp add: handle_def)
  qed
qed

lemma handleAll_wf:
  "wellFormed s \<Longrightarrow> wellFormed (finalState (handleAll M E (map Some sts) s))"
proof (induction sts arbitrary: s)
  case Nil
  then show ?case by simp
next
  case (Cons st rest)
  show ?case
  proof (cases "handle M E (Some st) s")
    case (Inl a)
    then show ?thesis using handle_wf[OF Cons.prems, of M E st] by simp
  next
    case (Inr s1)
    then have "wellFormed s1" using handle_wf[OF Cons.prems, of M E st] by simp
    from Cons.IH[OF this] show ?thesis using Inr by simp
  qed
qed

lemma ExecutionState_init_wf: "wellFormed (ExecutionState_init p vs)"
  by (simp add: wellFormed_def ExecutionState_init_def)

lemma handleAll_append:
  "handleAll M E (xs @ ys) s =
     (case handleAll M E xs s of Inl e \<Rightarrow> Inl e | Inr s1 \<Rightarrow> handleAll M E ys s1)"
  by (induction xs arbitrary: s) (simp_all split: sum.splits)

lemma moveCursor_pass:
  "c1Pass (finalState (moveCursor M m s)) = c1Pass s \<and>
   c1Length (finalState (moveCursor M m s)) = c1Length s"
proof (cases "moveCursor M m s")
  case (Inl a)
  obtain e s' where a: "a = (e, s')" by (cases a)
  from moveCursor_Inl[OF Inl[unfolded a]] show ?thesis using Inl a by simp
next
  case (Inr s')
  from moveCursor_Inr[OF Inr] show ?thesis using Inr by simp
qed

lemma handleDagQueue_pass:
  "c1Pass (finalState (handleDagQueue M sc s)) = c1Pass s \<and>
   c1Length (finalState (handleDagQueue M sc s)) = c1Length s"
proof (cases "handleDagQueue M sc s")
  case (Inl a)
  obtain e s' where a: "a = (e, s')" by (cases a)
  from handleDagQueue_Inl[OF Inl[unfolded a]] show ?thesis using Inl a by auto
next
  case (Inr s')
  from handleDagQueue_Inr[OF Inr] show ?thesis using Inr by auto
qed

lemma dispatch_pass:
  "c1Pass (finalState (dispatch M E x s)) = c1Pass s \<and>
   c1Length (finalState (dispatch M E x s)) = c1Length s"
proof (cases x)
  case None
  then show ?thesis using moveCursor_pass by (simp add: handleEOF_def)
next
  case (Some st)
  then show ?thesis
    using moveCursor_pass handleEval_state[of E st s]
    by (cases "variant st") (simp_all add: handleInOrder_def handleNextLine_def split: sum.splits)
qed

lemma handle_pass:
  "c1Pass (finalState (handle M E x s)) = c1Pass s \<and>
   c1Length (finalState (handle M E x s)) = c1Length s"
proof (cases "map_option variant x \<noteq> Some DAG")
  case False
  then show ?thesis using dispatch_pass by (simp add: handle_def)
next
  case True
  show ?thesis
  proof (cases "handleDagQueue M \<lparr>start = cursor s, stop = c1Length s\<rparr> s")
    case (Inl a)
    then show ?thesis
      using True handleDagQueue_pass[of M "\<lparr>start = cursor s, stop = c1Length s\<rparr>" s]
      by (simp add: handle_def)
  next
    case (Inr s1)
    then show ?thesis
      using True handleDagQueue_pass[of M "\<lparr>start = cursor s, stop = c1Length s\<rparr>" s]
        dispatch_pass[of M E x s1]
      by (simp add: handle_def)
  qed
qed

lemma handleAll_pass:
  "c1Pass (finalState (handleAll M E xs s)) = c1Pass s \<and>
   c1Length (finalState (handleAll M E xs s)) = c1Length s"
proof (induction xs arbitrary: s)
  case Nil
  show ?case by simp
next
  case (Cons x xs)
  show ?case
  proof (cases "handle M E x s")
    case (Inl a)
    then show ?thesis using handle_pass[of M E x s] by simp
  next
    case (Inr s1)
    then show ?thesis using handle_pass[of M E x s] Cons.IH[of s1] by simp
  qed
qed

lemma handle_None_Inr:
  assumes "handle M E None s = Inr s'"
  shows "cursor s' = c1Length s + 1"
proof -
  from assms obtain s1 where f: "handleDagQueue M \<lparr>start = cursor s, stop = c1Length s\<rparr> s = Inr s1"
    and e: "handleEOF M s1 = Inr s'"
    by (auto simp: handle_def split: sum.splits)
  have "c1Length s1 = c1Length s"
    using f handleDagQueue_pass[of M "\<lparr>start = cursor s, stop = c1Length s\<rparr>" s] by simp
  then show ?thesis using moveCursor_Inr[OF e[unfolded handleEOF_def]] by simp
qed

lemma handle_None_Inl:
  assumes "wellFormed s" and "handle M E None s = Inl (e, s')"
  shows "wellFormed s'"
proof (cases "handleDagQueue M \<lparr>start = cursor s, stop = c1Length s\<rparr> s")
  case (Inl a)
  then show ?thesis using assms(2) handleDagQueue_wf[OF assms(1), of M] by (simp add: handle_def)
next
  case (Inr s1)
  then have wf1: "wellFormed s1" using handleDagQueue_wf[OF assms(1), of M] by simp
  from Inr assms(2) have "handleEOF M s1 = Inl (e, s')" by (simp add: handle_def)
  from handleEOF_Inl[OF this] wf1 show ?thesis by simp
qed

lemma scanLines_Inl: "scanLines M st p vs excl is = Inl e \<Longrightarrow> e = IndexError"
  by (induction "is") (auto split: if_splits option.splits)

lemma findMatchingLine_Inl:
  "findMatchingLine M st p sc vs excl = Inl (MatchFailedException x ln vs') \<Longrightarrow>
     x = st \<and> ln = start sc \<and> vs' = vs"
  by (auto simp: findMatchingLine_def split: sum.splits option.splits dest: scanLines_Inl)

lemma notScanLines_Inl:
  "notScanLines M st p vs is = Inl (MatchFailedException x ln vs') \<Longrightarrow> x = st \<and> vs' = vs"
  by (induction "is") (auto split: if_splits option.splits)

lemma notLoop_Inl:
  "notLoop M p vs sc q = Inl (MatchFailedException x ln vs') \<Longrightarrow> x \<in> set q \<and> vs' = vs"
  by (induction q) (auto split: if_splits sum.splits dest: notScanLines_Inl)

lemma handleNotQueue_Inl:
  "handleNotQueue M sc s = Inl (e, s') \<Longrightarrow> s' = s"
  by (auto simp: handleNotQueue_def split: sum.splits)

lemma moveCursor_MatchFailed:
  "moveCursor M m s = Inl (MatchFailedException x ln vs', s') \<Longrightarrow> vs' = variables s"
  by (auto simp: moveCursor_def handleNotQueue_def split: if_splits sum.splits dest: notLoop_Inl)

lemma dispatch_Inl: "dispatch M E x s = Inl (e, s') \<Longrightarrow> s' = s"
proof (cases x)
  case None
  assume "dispatch M E x s = Inl (e, s')"
  then show ?thesis using None handleEOF_Inl by simp
next
  case (Some st)
  assume "dispatch M E x s = Inl (e, s')"
  then show ?thesis using Some handleEval_state[of E st s]
    by (cases "variant st") (auto dest: handleInOrder_Inl handleNextLine_Inl)
qed

lemma dispatch_MatchFailed:
  assumes "dispatch M E x s = Inl (MatchFailedException y ln vs', s')"
  shows "vs' = variables s"
proof (cases x)
  case None
  then show ?thesis using assms moveCursor_MatchFailed by (simp add: handleEOF_def)
next
  case (Some st)
  then show ?thesis using assms
    by (cases "variant st")
       (auto simp: handleInOrder_def handleNextLine_def handleEval_def
             split: sum.splits EvalResult.splits if_splits
             dest: moveCursor_MatchFailed findMatchingLine_Inl)
qed

lemma notLoop_empty_scope:
  "\<forall>st\<in>set q. variant st = Not' \<Longrightarrow> stop sc \<le> start sc \<Longrightarrow> notLoop M p vs sc q = Inr ()"
  by (induction q) simp_all

section \<open>The orchestrator's loop\<close>

lemma MatchFiles_loop_append:
  "MatchFiles_loop M E fs c1File targetArch debuggableMode (xs @ ys) lg =
     (case MatchFiles_loop M E fs c1File targetArch debuggableMode xs lg of
        Inl e \<Rightarrow> Inl e
      | Inr lg1 \<Rightarrow> MatchFiles_loop M E fs c1File targetArch debuggableMode ys lg1)"
proof (induction xs arbitrary: lg)
  case Nil
  show ?case by simp
next
  case (Cons testCase rest)
  show ?case
    by (simp add: Cons.IH Let_def split: option.splits sum.splits)
qed

lemma MatchFiles_loop_failed:
  assumes "testArch testCase \<in> {None, targetArch}"
    and "forDebuggable testCase = debuggableMode"
    and "findPass c1File (tc_name testCase) = Some p"
    and "MatchTestCase M E testCase p = Inl (MatchFailedException st ln vs)"
    and "fs (fileName c1File) = Some cfgFile"
  shows "MatchFiles_loop M E fs c1File targetArch debuggableMode (testCase # rest) lg =
     MatchFiles_loop M E fs c1File targetArch debuggableMode rest
       (lg @ [StartTest (tc_name testCase), Log cfgFile LevelError,
              TestFailed (if variant st = Not' then ''NOT statement matched line {}''
                          else ''Statement could not be matched starting from line {}'',
                          startLineNo p + ln) st vs])"
  using assms
  by (auto simp: reportFailure_def Logger_startTest_def Logger_log_def Logger_testFailed_def Let_def)

lemma MatchFiles_loop_unreadable:
  assumes "testArch testCase \<in> {None, targetArch}"
    and "forDebuggable testCase = debuggableMode"
    and "findPass c1File (tc_name testCase) = Some p"
    and "MatchTestCase M E testCase p = Inl (MatchFailedException st ln vs)"
    and "fs (fileName c1File) = None"
  shows "MatchFiles_loop M E fs c1File targetArch debuggableMode (testCase # rest) lg =
     Inl (IOError, lg @ [StartTest (tc_name testCase)])"
  using assms
  by (auto simp: reportFailure_def Logger_startTest_def Let_def)

section \<open>Unfolding on concrete inputs\<close>

text \<open>The definitions that evaluate the sample data and the handlers step by step.\<close>

lemmas sample_defs = sampleState_def samplePass_def stmt_def sampleMatchLines_def sampleEvaluateLine_def

lemmas eval_defs = handle_def handleDagQueue_def handleInOrder_def handleNextLine_def
  handleEval_def handleEOF_def moveCursor_def handleNotQueue_def findMatchingLine_def
  getitem_def upto.simps ExecutionState_init_def

lemma int_between_0_1: "0 \<le> j \<Longrightarrow> j < 1 \<Longrightarrow> j = (0::int)"
  by arith

lemma int_between_0_2: "0 \<le> j \<Longrightarrow> j < 2 \<Longrightarrow> j = (0::int) \<or> j = 1"
  by arith

section \<open>Claims about the automaton\<close>

text \<open>
  C6.  Verification of the NOT queue over a scope \<open>[a, b)\<close> inside the pass fails if and
  only if some line of the scope satisfies some queued Not statement under the bindings
  of the state at that time.  The failure then names such a statement, such a line index
  and those bindings, and leaves the state as it was; on success the NOT queue is
  emptied and nothing else changes.
\<close>

theorem handleNotQueue_sound:
  assumes "0 \<le> start sc" and "stop sc \<le> int (length (body (c1Pass s)))"
    and "\<forall>st\<in>set (notQueue s). variant st = Not'"
  shows "(if \<exists>st\<in>set (notQueue s). \<exists>i. start sc \<le> i \<and> i < stop sc \<and>
              M st (body (c1Pass s) ! nat i) (variables s) \<noteq> None
          then \<exists>st i. st \<in> set (notQueue s) \<and> start sc \<le> i \<and> i < stop sc \<and>
              M st (body (c1Pass s) ! nat i) (variables s) \<noteq> None \<and>
              handleNotQueue M sc s = Inl (MatchFailedException st i (variables s), s)
          else handleNotQueue M sc s = Inr (s\<lparr>notQueue := []\<rparr>))"
  using assms by (rule handleNotQueue_result)

theorem handleNotQueue_sound_witness:
  "(if \<exists>st\<in>set (notQueue (sampleState 0 [] [stmt Not' ''b''])).
         \<exists>i. start \<lparr>start = 0, stop = 2\<rparr> \<le> i \<and> i < stop \<lparr>start = 0, stop = 2\<rparr> \<and>
           sampleMatchLines st (body (c1Pass (sampleState 0 [] [stmt Not' ''b''])) ! nat i)
             (variables (sampleState 0 [] [stmt Not' ''b''])) \<noteq> None
    then \<exists>st i. st \<in> set (notQueue (sampleState 0 [] [stmt Not' ''b''])) \<and>
           start \<lparr>start = 0, stop = 2\<rparr> \<le> i \<and> i < stop \<lparr>start = 0, stop = 2\<rparr> \<and>
           sampleMatchLines st (body (c1Pass (sampleState 0 [] [stmt Not' ''b''])) ! nat i)
             (variables (sampleState 0 [] [stmt Not' ''b''])) \<noteq> None \<and>
           handleNotQueue sampleMatchLines \<lparr>start = 0, stop = 2\<rparr> (sampleState 0 [] [stmt Not' ''b''])
             = Inl (MatchFailedException st i (variables (sampleState 0 [] [stmt Not' ''b''])),
                    sampleState 0 [] [stmt Not' ''b''])
    else handleNotQueue sampleMatchLines \<lparr>start = 0, stop = 2\<rparr> (sampleState 0 [] [stmt Not' ''b''])
           = Inr ((sampleState 0 [] [stmt Not' ''b''])\<lparr>notQueue := []\<rparr>))
   \<and> handleNotQueue sampleMatchLines \<lparr>start = 0, stop = 2\<rparr> (sampleState 0 [] [stmt Not' ''b''])
     = Inl (MatchFailedException (stmt Not' ''b'') 1 (Some Map.empty), sampleState 0 [] [stmt Not' ''b''])
   \<and> handleNotQueue sampleMatchLines \<lparr>start = 0, stop = 1\<rparr> (sampleState 0 [] [stmt Not' ''b''])
     = Inr (sampleState 0 [] [])"
proof (intro conjI)
  show "handleNotQueue sampleMatchLines \<lparr>start = 0, stop = 2\<rparr> (sampleState 0 [] [stmt Not' ''b''])
     = Inl (MatchFailedException (stmt Not' ''b'') 1 (Some Map.empty), sampleState 0 [] [stmt Not' ''b''])"
    by (simp add: handleNotQueue_def getitem_def upto.simps sample_defs)
  show "handleNotQueue sampleMatchLines \<lparr>start = 0, stop = 1\<rparr> (sampleState 0 [] [stmt Not' ''b''])
     = Inr (sampleState 0 [] [])"
    by (simp add: handleNotQueue_def getitem_def upto.simps sample_defs)
qed (rule handleNotQueue_sound; simp add: sample_defs)



text \<open>
  C5.  Flushing the DAG queue over \<open>[cursor, len)\<close>: an empty queue changes nothing.
  Otherwise, whenever the queued statements, taken in list order, each match the earliest
  line not claimed by an earlier statement of the group, under the bindings threaded
  through the group (matched indices \<open>ms\<close>, bindings \<open>nvs\<close>), the matched indices are
  pairwise distinct and the NOT queue is verified over \<open>[cursor, min ms)\<close>: if a queued
  Not statement matches a line of that scope under the bindings from before the flush,
  the flush fails with such a statement and line; otherwise the cursor becomes
  \<open>max ms + 1\<close>, the bindings become those of the last statement and both queues are
  empty.  A successful flush always comes from such a group match, and a DAG statement
  is only appended to the queue, so the queue keeps the list order.
\<close>

theorem handleDagQueue_flush:
  assumes "0 \<le> cursor s" and "c1Length s = int (length (body (c1Pass s)))"
    and "\<forall>st\<in>set (dagQueue s). variant st = DAG"
    and "\<forall>st\<in>set (notQueue s). variant st = Not'"
  shows "(dagQueue s = [] \<longrightarrow> handleDagQueue M sc s = Inr s)
       \<and> (dagQueue s \<noteq> [] \<and>
          dagGroupMatch M (c1Pass s) \<lparr>start = cursor s, stop = c1Length s\<rparr> (dagQueue s)
            (variables s) [] ms nvs
          \<longrightarrow> distinct ms \<and> length ms = length (dagQueue s) \<and>
              (if \<exists>nst\<in>set (notQueue s). \<exists>i. cursor s \<le> i \<and> i < Min (set ms) \<and>
                    M nst (body (c1Pass s) ! nat i) (variables s) \<noteq> None
               then \<exists>nst i. nst \<in> set (notQueue s) \<and> cursor s \<le> i \<and> i < Min (set ms) \<and>
                    M nst (body (c1Pass s) ! nat i) (variables s) \<noteq> None \<and>
                    handleDagQueue M \<lparr>start = cursor s, stop = c1Length s\<rparr> s =
                      Inl (MatchFailedException nst i (variables s), s\<lparr>dagQueue := []\<rparr>)
               else handleDagQueue M \<lparr>start = cursor s, stop = c1Length s\<rparr> s =
                      Inr (s\<lparr>cursor := Max (set ms) + 1, variables := Some (last nvs),
                             dagQueue := [], notQueue := []\<rparr>)))
       \<and> (dagQueue s \<noteq> [] \<and> handleDagQueue M \<lparr>start = cursor s, stop = c1Length s\<rparr> s = Inr s'
          \<longrightarrow> (\<exists>ms nvs. dagGroupMatch M (c1Pass s) \<lparr>start = cursor s, stop = c1Length s\<rparr>
                 (dagQueue s) (variables s) [] ms nvs))
       \<and> (variant st = DAG \<longrightarrow> handle M E (Some st) s = Inr (s\<lparr>dagQueue := dagQueue s @ [st]\<rparr>))"
proof -
  have p1: "dagQueue s = [] \<longrightarrow> handleDagQueue M sc s = Inr s"
    by (simp add: handleDagQueue_def)
  have p4: "variant st = DAG \<longrightarrow> handle M E (Some st) s = Inr (s\<lparr>dagQueue := dagQueue s @ [st]\<rparr>)"
    by (simp add: handle_def)
  have p3: "dagQueue s \<noteq> [] \<and> handleDagQueue M \<lparr>start = cursor s, stop = c1Length s\<rparr> s = Inr s'
     \<longrightarrow> (\<exists>ms nvs. dagGroupMatch M (c1Pass s) \<lparr>start = cursor s, stop = c1Length s\<rparr>
                 (dagQueue s) (variables s) [] ms nvs)"
    using handleDagQueue_success[OF assms(1-3)] by blast
  have p2: "distinct ms \<and> length ms = length (dagQueue s) \<and>
              (if \<exists>nst\<in>set (notQueue s). \<exists>i. cursor s \<le> i \<and> i < Min (set ms) \<and>
                    M nst (body (c1Pass s) ! nat i) (variables s) \<noteq> None
               then \<exists>nst i. nst \<in> set (notQueue s) \<and> cursor s \<le> i \<and> i < Min (set ms) \<and>
                    M nst (body (c1Pass s) ! nat i) (variables s) \<noteq> None \<and>
                    handleDagQueue M \<lparr>start = cursor s, stop = c1Length s\<rparr> s =
                      Inl (MatchFailedException nst i (variables s), s\<lparr>dagQueue := []\<rparr>)
               else handleDagQueue M \<lparr>start = cursor s, stop = c1Length s\<rparr> s =
                      Inr (s\<lparr>cursor := Max (set ms) + 1, variables := Some (last nvs),
                             dagQueue := [], notQueue := []\<rparr>))"
    if g: "dagQueue s \<noteq> [] \<and>
          dagGroupMatch M (c1Pass s) \<lparr>start = cursor s, stop = c1Length s\<rparr> (dagQueue s)
            (variables s) [] ms nvs"
  proof -
    let ?t = "s\<lparr>dagQueue := []\<rparr>"
    let ?nsc = "\<lparr>start = cursor s, stop = Min (set ms)\<rparr>"
    from g have ne: "dagQueue s \<noteq> []"
      and gm: "dagGroupMatch M (c1Pass s) \<lparr>start = cursor s, stop = c1Length s\<rparr> (dagQueue s)
            (variables s) [] ms nvs"
      by simp_all
    note props = dagGroupMatch_props[OF gm]
    have d: "distinct ms" and l: "length ms = length (dagQueue s)" using props by simp_all
    have "ms \<noteq> []" using l ne by auto
    then have "Min (set ms) \<in> set ms" by (intro Min_in) simp_all
    then have "Min (set ms) < c1Length s" using props by auto
    then have b2: "stop ?nsc \<le> int (length (body (c1Pass ?t)))" using assms(2) by simp
    have b1: "0 \<le> start ?nsc" using assms(1) by simp
    have b3: "\<forall>st\<in>set (notQueue ?t). variant st = Not'" using assms(4) by simp
    note nq = handleNotQueue_result[OF b1 b2 b3, of M]
    note eq = handleDagQueue_group[OF assms(1-3) ne gm]
    show ?thesis
    proof (cases "\<exists>nst\<in>set (notQueue s). \<exists>i. cursor s \<le> i \<and> i < Min (set ms) \<and>
                    M nst (body (c1Pass s) ! nat i) (variables s) \<noteq> None")
      case True
      with nq obtain nst i where "nst \<in> set (notQueue s)" "cursor s \<le> i" "i < Min (set ms)"
        "M nst (body (c1Pass s) ! nat i) (variables s) \<noteq> None"
        "handleNotQueue M ?nsc ?t = Inl (MatchFailedException nst i (variables s), ?t)"
        by auto
      then show ?thesis using True d l eq by auto
    next
      case False
      with nq have "handleNotQueue M ?nsc ?t = Inr (?t\<lparr>notQueue := []\<rparr>)" by simp
      then show ?thesis using False d l eq by simp
    qed
  qed
  show ?thesis using p1 p2 p3 p4 by blast
qed

theorem handleDagQueue_flush_witness:
  "dagGroupMatch sampleMatchLines samplePass \<lparr>start = 0, stop = 3\<rparr> [stmt DAG ''c'', stmt DAG ''b'']
      (Some Map.empty) [] [2, 1] [[''last'' \<mapsto> ''c''], [''last'' \<mapsto> ''b'']]
   \<and> handleDagQueue sampleMatchLines \<lparr>start = 0, stop = 3\<rparr>
        (sampleState 0 [stmt DAG ''c'', stmt DAG ''b''] [stmt Not' ''b''])
      = Inr ((sampleState 3 [] [])\<lparr>variables := Some [''last'' \<mapsto> ''b'']\<rparr>)
   \<and> dagGroupMatch sampleMatchLines samplePass \<lparr>start = 0, stop = 3\<rparr> [stmt DAG ''c'']
      (Some Map.empty) [] [2] [[''last'' \<mapsto> ''c'']]
   \<and> (\<exists>nst i. nst \<in> set [stmt Not' ''b''] \<and> 0 \<le> i \<and> i < 2 \<and>
         handleDagQueue sampleMatchLines \<lparr>start = 0, stop = 3\<rparr>
           (sampleState 0 [stmt DAG ''c''] [stmt Not' ''b''])
         = Inl (MatchFailedException nst i (Some Map.empty), sampleState 0 [] [stmt Not' ''b'']))
   \<and> handleDagQueue sampleMatchLines \<lparr>start = 0, stop = 3\<rparr>
        (sampleState 0 [stmt DAG ''c''] [stmt Not' ''b''])
      = Inl (MatchFailedException (stmt Not' ''b'') 1 (Some Map.empty),
             sampleState 0 [] [stmt Not' ''b''])"
proof -
  let ?ok = "sampleState 0 [stmt DAG ''c'', stmt DAG ''b''] [stmt Not' ''b'']"
  let ?bad = "sampleState 0 [stmt DAG ''c''] [stmt Not' ''b'']"
  have e1: "earliestMatch sampleMatchLines (stmt DAG ''c'') samplePass \<lparr>start = 0, stop = 3\<rparr>
      (Some Map.empty) [] 2 [''last'' \<mapsto> ''c'']"
    unfolding earliestMatch_def
  proof (intro conjI allI impI)
    fix j :: int
    assume "start \<lparr>start = 0, stop = 3\<rparr> \<le> j \<and> j < 2"
    then have "j = 0 \<or> j = 1" by (simp add: int_between_0_2)
    then show "j \<in> set [] \<or> sampleMatchLines (stmt DAG ''c'') (body samplePass ! nat j) (Some Map.empty) = None"
      by (auto simp: sample_defs)
  qed (simp_all add: sample_defs)
  have e2: "earliestMatch sampleMatchLines (stmt DAG ''b'') samplePass \<lparr>start = 0, stop = 3\<rparr>
      (Some [''last'' \<mapsto> ''c'']) [2] 1 [''last'' \<mapsto> ''b'']"
    unfolding earliestMatch_def
  proof (intro conjI allI impI)
    fix j :: int
    assume "start \<lparr>start = 0, stop = 3\<rparr> \<le> j \<and> j < 1"
    then have "j = 0" by (simp add: int_between_0_1)
    then show "j \<in> set [2] \<or> sampleMatchLines (stmt DAG ''b'') (body samplePass ! nat j)
        (Some [''last'' \<mapsto> ''c'']) = None"
      by (simp add: sample_defs)
  qed (simp_all add: sample_defs)
  have gm2: "dagGroupMatch sampleMatchLines samplePass \<lparr>start = 0, stop = 3\<rparr> [stmt DAG ''c'', stmt DAG ''b'']
      (Some Map.empty) [] [2, 1] [[''last'' \<mapsto> ''c''], [''last'' \<mapsto> ''b'']]"
    using e1 e2 by simp
  have gm1: "dagGroupMatch sampleMatchLines samplePass \<lparr>start = 0, stop = 3\<rparr> [stmt DAG ''c'']
      (Some Map.empty) [] [2] [[''last'' \<mapsto> ''c'']]"
    using e1 by simp
  have ok_h: "0 \<le> cursor ?ok" "c1Length ?ok = int (length (body (c1Pass ?ok)))"
    "\<forall>st\<in>set (dagQueue ?ok). variant st = DAG" "\<forall>st\<in>set (notQueue ?ok). variant st = Not'"
    by (simp_all add: sample_defs)
  have bad_h: "0 \<le> cursor ?bad" "c1Length ?bad = int (length (body (c1Pass ?bad)))"
    "\<forall>st\<in>set (dagQueue ?bad). variant st = DAG" "\<forall>st\<in>set (notQueue ?bad). variant st = Not'"
    by (simp_all add: sample_defs)
  have ok_pre: "dagQueue ?ok \<noteq> [] \<and>
      dagGroupMatch sampleMatchLines (c1Pass ?ok) \<lparr>start = cursor ?ok, stop = c1Length ?ok\<rparr> (dagQueue ?ok)
        (variables ?ok) [] [2, 1] [[''last'' \<mapsto> ''c''], [''last'' \<mapsto> ''b'']]"
    using gm2 by (simp add: sampleState_def)
  have bad_pre: "dagQueue ?bad \<noteq> [] \<and>
      dagGroupMatch sampleMatchLines (c1Pass ?bad) \<lparr>start = cursor ?bad, stop = c1Length ?bad\<rparr> (dagQueue ?bad)
        (variables ?bad) [] [2] [[''last'' \<mapsto> ''c'']]"
    using gm1 by (simp add: sampleState_def)
  have ok_clean: "\<not> (\<exists>nst\<in>set (notQueue ?ok). \<exists>i. cursor ?ok \<le> i \<and> i < Min (set [2, 1]) \<and>
      sampleMatchLines nst (body (c1Pass ?ok) ! nat i) (variables ?ok) \<noteq> None)"
  proof
    assume "\<exists>nst\<in>set (notQueue ?ok). \<exists>i. cursor ?ok \<le> i \<and> i < Min (set [2, 1]) \<and>
      sampleMatchLines nst (body (c1Pass ?ok) ! nat i) (variables ?ok) \<noteq> None"
    then obtain i where i: "0 \<le> i" "i < 1"
      and m: "sampleMatchLines (stmt Not' ''b'') (body samplePass ! nat i) (Some Map.empty) \<noteq> None"
      by (auto simp: sampleState_def)
    from i have "i = 0" by (rule int_between_0_1)
    then show False using m by (simp add: sample_defs)
  qed
  have bad_hit: "\<exists>nst\<in>set (notQueue ?bad). \<exists>i. cursor ?bad \<le> i \<and> i < Min (set [2]) \<and>
      sampleMatchLines nst (body (c1Pass ?bad) ! nat i) (variables ?bad) \<noteq> None"
    by (rule bexI[of _ "stmt Not' ''b''"], rule exI[of _ 1]) (simp_all add: sample_defs)
  note ok_thm = handleDagQueue_flush[OF ok_h, where M=sampleMatchLines and ms="[2, 1]"
      and nvs="[[''last'' \<mapsto> ''c''], [''last'' \<mapsto> ''b'']]"]
  note bad_thm = handleDagQueue_flush[OF bad_h, where M=sampleMatchLines and ms="[2]"
      and nvs="[[''last'' \<mapsto> ''c'']]"]
  from ok_thm ok_pre ok_clean
  have "handleDagQueue sampleMatchLines \<lparr>start = cursor ?ok, stop = c1Length ?ok\<rparr> ?ok =
      Inr (?ok\<lparr>cursor := Max (set [2, 1]) + 1,
                variables := Some (last [[''last'' \<mapsto> ''c''], [''last'' \<mapsto> ''b'']]),
                dagQueue := [], notQueue := []\<rparr>)"
    by (simp only: if_False simp_thms)
  then have r_ok: "handleDagQueue sampleMatchLines \<lparr>start = 0, stop = 3\<rparr> ?ok
      = Inr ((sampleState 3 [] [])\<lparr>variables := Some [''last'' \<mapsto> ''b'']\<rparr>)"
    by (simp add: sampleState_def)
  from bad_thm bad_pre bad_hit
  have "\<exists>nst i. nst \<in> set (notQueue ?bad) \<and> cursor ?bad \<le> i \<and> i < Min (set [2]) \<and>
      sampleMatchLines nst (body (c1Pass ?bad) ! nat i) (variables ?bad) \<noteq> None \<and>
      handleDagQueue sampleMatchLines \<lparr>start = cursor ?bad, stop = c1Length ?bad\<rparr> ?bad =
        Inl (MatchFailedException nst i (variables ?bad), ?bad\<lparr>dagQueue := []\<rparr>)"
    by (simp only: if_True simp_thms)
  then have r_bad: "\<exists>nst i. nst \<in> set [stmt Not' ''b''] \<and> 0 \<le> i \<and> i < 2 \<and>
         handleDagQueue sampleMatchLines \<lparr>start = 0, stop = 3\<rparr> ?bad
         = Inl (MatchFailedException nst i (Some Map.empty), sampleState 0 [] [stmt Not' ''b''])"
    by (auto simp: sampleState_def)
  have r_eval: "handleDagQueue sampleMatchLines \<lparr>start = 0, stop = 3\<rparr> ?bad
      = Inl (MatchFailedException (stmt Not' ''b'') 1 (Some Map.empty),
             sampleState 0 [] [stmt Not' ''b''])"
    by (simp add: eval_defs sample_defs)
  show ?thesis using gm2 r_ok gm1 r_bad r_eval by blast
qed

text \<open>
  C7.  No transition decreases the cursor: after handling any statement or the
  end-of-input marker from any state, whether the handler returns or raises, the cursor
  is at least what it was; the same holds for a whole sequence of statements and for the
  two internal moves, the flush of the DAG queue and \<open>moveCursor\<close>.
\<close>

theorem cursor_never_decreases:
  "cursor s \<le> cursor (finalState (handle M E statement s))
   \<and> cursor s \<le> cursor (finalState (handleAll M E sts s))
   \<and> cursor s \<le> cursor (finalState (handleDagQueue M sc s))
   \<and> cursor s \<le> cursor (finalState (moveCursor M m s))"
  using handle_mono handleAll_mono handleDagQueue_mono moveCursor_mono by blast

theorem cursor_never_decreases_witness:
  "cursor (sampleState 0 [] [])
     \<le> cursor (finalState (handle sampleMatchLines sampleEvaluateLine (Some (stmt InOrder ''b''))
                  (sampleState 0 [] [])))
   \<and> cursor (finalState (handle sampleMatchLines sampleEvaluateLine (Some (stmt InOrder ''b''))
                  (sampleState 0 [] []))) = 2
   \<and> cursor (finalState (handleAll sampleMatchLines sampleEvaluateLine
                  [Some (stmt DAG ''b''), Some (stmt DAG ''a''), Some (stmt InOrder ''z'')]
                  (sampleState 0 [] []))) = 2"
proof (intro conjI)
  show "cursor (sampleState 0 [] [])
     \<le> cursor (finalState (handle sampleMatchLines sampleEvaluateLine (Some (stmt InOrder ''b''))
                  (sampleState 0 [] [])))"
    using cursor_never_decreases[of "sampleState 0 [] []" sampleMatchLines sampleEvaluateLine
        "Some (stmt InOrder ''b'')"]
    by blast
  show "cursor (finalState (handle sampleMatchLines sampleEvaluateLine (Some (stmt InOrder ''b''))
                  (sampleState 0 [] []))) = 2"
    by (simp add: eval_defs sample_defs)
  show "cursor (finalState (handleAll sampleMatchLines sampleEvaluateLine
                  [Some (stmt DAG ''b''), Some (stmt DAG ''a''), Some (stmt InOrder ''z'')]
                  (sampleState 0 [] []))) = 2"
    by (simp add: eval_defs sample_defs)
qed

text \<open>
  C2, as the code has it.  The claim fails after the end-of-input marker: the marker
  is matched like a line at index \<open>len\<close>, so a successful run ends with the cursor at
  \<open>len + 1\<close>.
\<close>

theorem cursor_after_EOF_counterexample:
  "\<not> cursor (finalState (handle sampleMatchLines sampleEvaluateLine None (sampleState 0 [] [])))
       \<le> int (length (body (c1Pass (sampleState 0 [] []))))"
  by (simp add: eval_defs sample_defs)

text \<open>
  C2, amended.  In every run from the initial state the cursor satisfies
  \<open>0 \<le> cursor \<le> len\<close> after any number of statements, whether the last of them
  returned or raised, and also when the end-of-input marker raises; when the marker is
  handled successfully the cursor is \<open>len + 1\<close>.
\<close>

theorem cursor_within_pass_until_EOF:
  "0 \<le> cursor (finalState (handleAll M E (map Some sts) (ExecutionState_init p vs)))
   \<and> cursor (finalState (handleAll M E (map Some sts) (ExecutionState_init p vs)))
       \<le> int (length (body p))
   \<and> (handleAll M E (map Some sts @ [None]) (ExecutionState_init p vs) = Inr s'
       \<longrightarrow> cursor s' = int (length (body p)) + 1)
   \<and> (handleAll M E (map Some sts @ [None]) (ExecutionState_init p vs) = Inl (e, s')
       \<longrightarrow> 0 \<le> cursor s' \<and> cursor s' \<le> int (length (body p)))"
proof -
  let ?run = "handleAll M E (map Some sts) (ExecutionState_init p vs)"
  have wf: "wellFormed (finalState ?run)"
    by (rule handleAll_wf[OF ExecutionState_init_wf])
  have pass: "c1Pass (finalState ?run) = p" "c1Length (finalState ?run) = int (length (body p))"
    using handleAll_pass[of M E "map Some sts" "ExecutionState_init p vs"]
    by (simp_all add: ExecutionState_init_def)
  have bounds: "\<And>t. wellFormed t \<Longrightarrow> c1Length t = int (length (body p)) \<Longrightarrow>
      0 \<le> cursor t \<and> cursor t \<le> int (length (body p))"
    by (simp add: wellFormed_def)
  have a: "0 \<le> cursor (finalState ?run) \<and> cursor (finalState ?run) \<le> int (length (body p))"
    using bounds[OF wf pass(2)] .
  have b: "cursor s' = int (length (body p)) + 1"
    if h: "handleAll M E (map Some sts @ [None]) (ExecutionState_init p vs) = Inr s'"
  proof -
    from h obtain s1 where r: "?run = Inr s1" and "handle M E None s1 = Inr s'"
      by (auto simp: handleAll_append split: sum.splits)
    from handle_None_Inr[OF this(2)] pass(2) r show ?thesis by simp
  qed
  have c: "0 \<le> cursor s' \<and> cursor s' \<le> int (length (body p))"
    if h: "handleAll M E (map Some sts @ [None]) (ExecutionState_init p vs) = Inl (e, s')"
  proof (cases ?run)
    case (Inl a)
    then have "s' = finalState ?run" using h by (simp add: handleAll_append)
    then show ?thesis using a by simp
  next
    case (Inr s1)
    then have e1: "handle M E None s1 = Inl (e, s')"
      using h by (simp add: handleAll_append split: sum.splits)
    have wf1: "wellFormed s1" and len1: "c1Length s1 = int (length (body p))"
      using wf pass(2) Inr by simp_all
    have "wellFormed s'" by (rule handle_None_Inl[OF wf1 e1])
    moreover have "c1Length s' = int (length (body p))"
      using handle_pass[of M E None s1] e1 len1 by simp
    ultimately show ?thesis by (rule bounds)
  qed
  show ?thesis using a b c by blast
qed

theorem cursor_within_pass_until_EOF_witness:
  "handleAll sampleMatchLines sampleEvaluateLine (map Some [stmt InOrder ''b''] @ [None])
      (ExecutionState_init samplePass Map.empty)
     = Inr ((sampleState 4 [] [])\<lparr>variables := None\<rparr>)
   \<and> cursor ((sampleState 4 [] [])\<lparr>variables := None\<rparr>) = int (length (body samplePass)) + 1"
proof -
  have run: "handleAll sampleMatchLines sampleEvaluateLine (map Some [stmt InOrder ''b''] @ [None])
      (ExecutionState_init samplePass Map.empty)
     = Inr ((sampleState 4 [] [])\<lparr>variables := None\<rparr>)"
    by (simp add: eval_defs sample_defs)
  from cursor_within_pass_until_EOF[of sampleMatchLines sampleEvaluateLine "[stmt InOrder ''b'']"
      samplePass Map.empty "(sampleState 4 [] [])\<lparr>variables := None\<rparr>"] run
  have "cursor ((sampleState 4 [] [])\<lparr>variables := None\<rparr>) = int (length (body samplePass)) + 1"
    by blast
  then show ?thesis using run by simp
qed

text \<open>
  C1, as the code has it.  The claim fails: with the cursor at 0 in a pass of three
  lines and nothing queued, the end-of-input marker is handled successfully.
\<close>

theorem handleEOF_succeeds_before_end_counterexample:
  "cursor (sampleState 0 [] []) \<noteq> c1Length (sampleState 0 [] [])
   \<and> handle sampleMatchLines sampleEvaluateLine None (sampleState 0 [] [])
       = Inr ((sampleState 4 [] [])\<lparr>variables := None\<rparr>)"
  by (simp add: eval_defs sample_defs)

text \<open>
  C1, amended.  The end-of-input marker is handled after a flush of the DAG queue and
  does not require the cursor to be at the end of the pass.  It verifies the NOT queue
  over the remaining lines \<open>[cursor, len)\<close>: it fails if and only if a queued Not
  statement matches one of them, and the failure names that statement and that line
  index with the current bindings; otherwise it succeeds, the cursor becomes
  \<open>len + 1\<close>, the bindings become \<open>None\<close> and the NOT queue is emptied.
\<close>

theorem handleEOF_checks_only_not_queue:
  assumes "wellFormed s"
  shows "(if \<exists>st\<in>set (notQueue s). \<exists>i. cursor s \<le> i \<and> i < c1Length s \<and>
              M st (body (c1Pass s) ! nat i) (variables s) \<noteq> None
          then \<exists>st i. st \<in> set (notQueue s) \<and> cursor s \<le> i \<and> i < c1Length s \<and>
              M st (body (c1Pass s) ! nat i) (variables s) \<noteq> None \<and>
              handleEOF M s = Inl (MatchFailedException st i (variables s), s)
          else handleEOF M s =
              Inr (s\<lparr>cursor := c1Length s + 1, variables := None, notQueue := []\<rparr>))
       \<and> handle M E None s =
           (case handleDagQueue M \<lparr>start = cursor s, stop = c1Length s\<rparr> s of
              Inl e \<Rightarrow> Inl e
            | Inr s1 \<Rightarrow> handleEOF M s1)"
proof
  let ?sc = "\<lparr>start = cursor s, stop = c1Length s\<rparr>"
  have b1: "0 \<le> start ?sc" and b2: "stop ?sc \<le> int (length (body (c1Pass s)))"
    and b3: "\<forall>st\<in>set (notQueue s). variant st = Not'" and le: "cursor s \<le> c1Length s"
    using assms by (simp_all add: wellFormed_def)
  have eof: "handleEOF M s =
      (case handleNotQueue M ?sc s of
         Inl e \<Rightarrow> Inl e
       | Inr s1 \<Rightarrow> Inr (s1\<lparr>cursor := c1Length s + 1, variables := None\<rparr>))"
    using le by (simp add: handleEOF_def moveCursor_def split: sum.splits)
  from handleNotQueue_result[OF b1 b2 b3, of M]
  show "if \<exists>st\<in>set (notQueue s). \<exists>i. cursor s \<le> i \<and> i < c1Length s \<and>
              M st (body (c1Pass s) ! nat i) (variables s) \<noteq> None
          then \<exists>st i. st \<in> set (notQueue s) \<and> cursor s \<le> i \<and> i < c1Length s \<and>
              M st (body (c1Pass s) ! nat i) (variables s) \<noteq> None \<and>
              handleEOF M s = Inl (MatchFailedException st i (variables s), s)
          else handleEOF M s =
              Inr (s\<lparr>cursor := c1Length s + 1, variables := None, notQueue := []\<rparr>)"
    unfolding eof by (auto split: if_splits)
  show "handle M E None s =
           (case handleDagQueue M \<lparr>start = cursor s, stop = c1Length s\<rparr> s of
              Inl e \<Rightarrow> Inl e
            | Inr s1 \<Rightarrow> handleEOF M s1)"
    by (simp add: handle_def split: sum.splits)
qed

theorem handleEOF_checks_only_not_queue_witness:
  "wellFormed (sampleState 1 [] [stmt Not' ''c''])
   \<and> handleEOF sampleMatchLines (sampleState 1 [] [stmt Not' ''c''])
       = Inl (MatchFailedException (stmt Not' ''c'') 2 (Some Map.empty),
              sampleState 1 [] [stmt Not' ''c''])
   \<and> wellFormed (sampleState 1 [] [stmt Not' ''a''])
   \<and> handleEOF sampleMatchLines (sampleState 1 [] [stmt Not' ''a''])
       = Inr ((sampleState 4 [] [])\<lparr>variables := None\<rparr>)"
proof -
  let ?s = "sampleState 1 [] [stmt Not' ''a'']"
  have wf: "wellFormed ?s" by (simp add: wellFormed_def sample_defs)
  have wf2: "wellFormed (sampleState 1 [] [stmt Not' ''c''])" by (simp add: wellFormed_def sample_defs)
  have none: "\<not> (\<exists>st\<in>set (notQueue ?s). \<exists>i. cursor ?s \<le> i \<and> i < c1Length ?s \<and>
      sampleMatchLines st (body (c1Pass ?s) ! nat i) (variables ?s) \<noteq> None)"
  proof
    assume "\<exists>st\<in>set (notQueue ?s). \<exists>i. cursor ?s \<le> i \<and> i < c1Length ?s \<and>
      sampleMatchLines st (body (c1Pass ?s) ! nat i) (variables ?s) \<noteq> None"
    then obtain i where i: "1 \<le> i" "i < 3"
      and m: "sampleMatchLines (stmt Not' ''a'') (body samplePass ! nat i) (Some Map.empty) \<noteq> None"
      by (auto simp: sampleState_def)
    from i have "i = 1 \<or> i = 2" by arith
    then show False using m by (auto simp: sample_defs)
  qed
  from handleEOF_checks_only_not_queue[OF wf, of sampleMatchLines] none
  have "handleEOF sampleMatchLines ?s =
      Inr (?s\<lparr>cursor := c1Length ?s + 1, variables := None, notQueue := []\<rparr>)"
    by (simp only: if_False)
  then have ok: "handleEOF sampleMatchLines ?s = Inr ((sampleState 4 [] [])\<lparr>variables := None\<rparr>)"
    by (simp add: sampleState_def)
  have bad: "handleEOF sampleMatchLines (sampleState 1 [] [stmt Not' ''c''])
       = Inl (MatchFailedException (stmt Not' ''c'') 2 (Some Map.empty),
              sampleState 1 [] [stmt Not' ''c''])"
    by (simp add: eval_defs sample_defs)
  show ?thesis using wf wf2 ok bad by simp
qed

text \<open>
  C10, as the code has it.  The claim fails when a DAG group is pending: handling the
  InOrder statement first flushes the group, which moves the cursor and replaces the
  bindings, and only then fails to match the statement.
\<close>

theorem failure_after_flush_counterexample:
  "handle sampleMatchLines sampleEvaluateLine (Some (stmt InOrder ''z''))
       (sampleState 0 [stmt DAG ''a''] [])
     = Inl (MatchFailedException (stmt InOrder ''z'') 1 (Some [''last'' \<mapsto> ''a'']),
            (sampleState 1 [] [])\<lparr>variables := Some [''last'' \<mapsto> ''a'']\<rparr>)
   \<and> cursor ((sampleState 1 [] [])\<lparr>variables := Some [''last'' \<mapsto> ''a'']\<rparr>)
       \<noteq> cursor (sampleState 0 [stmt DAG ''a''] [])
   \<and> variables ((sampleState 1 [] [])\<lparr>variables := Some [''last'' \<mapsto> ''a'']\<rparr>)
       \<noteq> variables (sampleState 0 [stmt DAG ''a''] [])"
  by (simp add: eval_defs sample_defs)

text \<open>
  C10, amended.  Whenever the flush of the DAG queue, the verification of the NOT
  queue, or the handler of an InOrder, NextLine or Eval statement or of the
  end-of-input marker raises, the cursor and the bindings of the state are those the
  handler started from.  Handling a statement runs the flush before the statement's
  own handler: when it raises, the cursor and the bindings are those from before the
  statement, or, when a pending DAG group was flushed successfully first, those left by
  the flush.  With no DAG group pending, a match failure leaves the whole state as it
  was and its bindings snapshot is the bindings of that state.
\<close>

theorem failure_keeps_cursor_and_bindings:
  "(handleNotQueue M sc s = Inl (e, s') \<longrightarrow> cursor s' = cursor s \<and> variables s' = variables s)
   \<and> (handleDagQueue M sc s = Inl (e, s') \<longrightarrow> cursor s' = cursor s \<and> variables s' = variables s)
   \<and> (handleInOrder M st s = Inl (e, s') \<longrightarrow> cursor s' = cursor s \<and> variables s' = variables s)
   \<and> (handleNextLine M st s = Inl (e, s') \<longrightarrow> cursor s' = cursor s \<and> variables s' = variables s)
   \<and> (handleEval E st s = Inl (e, s') \<longrightarrow> cursor s' = cursor s \<and> variables s' = variables s)
   \<and> (handleEOF M s = Inl (e, s') \<longrightarrow> cursor s' = cursor s \<and> variables s' = variables s)
   \<and> (handle M E statement s = Inl (e, s') \<longrightarrow>
        (cursor s' = cursor s \<and> variables s' = variables s) \<or>
        (dagQueue s \<noteq> [] \<and> map_option variant statement \<noteq> Some DAG \<and>
         (\<exists>s1. handleDagQueue M \<lparr>start = cursor s, stop = c1Length s\<rparr> s = Inr s1 \<and>
               cursor s' = cursor s1 \<and> variables s' = variables s1)))
   \<and> (handle M E statement s = Inl (MatchFailedException x ln vs, s') \<and> dagQueue s = [] \<longrightarrow>
        s' = s \<and> vs = variables s)"
proof -
  have a1: "cursor s' = cursor s \<and> variables s' = variables s" if "handleNotQueue M sc s = Inl (e, s')"
    using handleNotQueue_Inl[OF that] by simp
  have a2: "cursor s' = cursor s \<and> variables s' = variables s" if "handleDagQueue M sc s = Inl (e, s')"
    using handleDagQueue_Inl[OF that] by auto
  have a3: "cursor s' = cursor s \<and> variables s' = variables s" if "handleInOrder M st s = Inl (e, s')"
    using handleInOrder_Inl[OF that] by simp
  have a4: "cursor s' = cursor s \<and> variables s' = variables s" if "handleNextLine M st s = Inl (e, s')"
    using handleNextLine_Inl[OF that] by simp
  have a5: "cursor s' = cursor s \<and> variables s' = variables s" if "handleEval E st s = Inl (e, s')"
    using handleEval_state[of E st s] that by simp
  have a6: "cursor s' = cursor s \<and> variables s' = variables s" if "handleEOF M s = Inl (e, s')"
    using handleEOF_Inl[OF that] by simp
  have a7: "(cursor s' = cursor s \<and> variables s' = variables s) \<or>
        (dagQueue s \<noteq> [] \<and> map_option variant statement \<noteq> Some DAG \<and>
         (\<exists>s1. handleDagQueue M \<lparr>start = cursor s, stop = c1Length s\<rparr> s = Inr s1 \<and>
               cursor s' = cursor s1 \<and> variables s' = variables s1))"
    if h: "handle M E statement s = Inl (e, s')"
  proof (cases "map_option variant statement \<noteq> Some DAG")
    case False
    then have "dispatch M E statement s = Inl (e, s')" using h by (simp add: handle_def)
    from dispatch_Inl[OF this] show ?thesis by simp
  next
    case True
    show ?thesis
    proof (cases "handleDagQueue M \<lparr>start = cursor s, stop = c1Length s\<rparr> s")
      case (Inl a)
      then have "handleDagQueue M \<lparr>start = cursor s, stop = c1Length s\<rparr> s = Inl (e, s')"
        using h True by (simp add: handle_def)
      from handleDagQueue_Inl[OF this] show ?thesis by auto
    next
      case (Inr s1)
      then have "dispatch M E statement s1 = Inl (e, s')" using h True by (simp add: handle_def)
      from dispatch_Inl[OF this] have s': "s' = s1" .
      show ?thesis
      proof (cases "dagQueue s = []")
        case True
        then have "s1 = s" using Inr by (simp add: handleDagQueue_def)
        then show ?thesis using s' by simp
      next
        case False
        then show ?thesis using True Inr s' by simp
      qed
    qed
  qed
  have a8: "s' = s \<and> vs = variables s"
    if h: "handle M E statement s = Inl (MatchFailedException x ln vs, s') \<and> dagQueue s = []"
  proof -
    from h have "dispatch M E statement s = Inl (MatchFailedException x ln vs, s')"
      by (auto simp: handle_def handleDagQueue_def split: if_splits)
    from dispatch_Inl[OF this] dispatch_MatchFailed[OF this]
    show ?thesis by simp
  qed
  show ?thesis using a1 a2 a3 a4 a5 a6 a7 a8 by blast
qed

theorem failure_keeps_cursor_and_bindings_witness:
  "handle sampleMatchLines sampleEvaluateLine (Some (stmt InOrder ''z'')) (sampleState 1 [] [stmt Not' ''b''])
     = Inl (MatchFailedException (stmt InOrder ''z'') 1 (Some Map.empty),
            sampleState 1 [] [stmt Not' ''b''])
   \<and> handle sampleMatchLines sampleEvaluateLine (Some (stmt InOrder ''z''))
        (sampleState 0 [stmt DAG ''a''] [])
     = Inl (MatchFailedException (stmt InOrder ''z'') 1 (Some [''last'' \<mapsto> ''a'']),
            (sampleState 1 [] [])\<lparr>variables := Some [''last'' \<mapsto> ''a'']\<rparr>)
   \<and> handleDagQueue sampleMatchLines \<lparr>start = 0, stop = 3\<rparr> (sampleState 0 [stmt DAG ''a''] [])
     = Inr ((sampleState 1 [] [])\<lparr>variables := Some [''last'' \<mapsto> ''a'']\<rparr>)"
proof -
  let ?s = "sampleState 1 [] [stmt Not' ''b'']"
  have run: "handle sampleMatchLines sampleEvaluateLine (Some (stmt InOrder ''z'')) ?s
     = Inl (MatchFailedException (stmt InOrder ''z'') 1 (Some Map.empty), ?s)"
    by (simp add: eval_defs sample_defs)
  have q: "dagQueue ?s = []" by (simp add: sampleState_def)
  from failure_keeps_cursor_and_bindings[of sampleMatchLines _ ?s _ ?s _ sampleEvaluateLine
      "Some (stmt InOrder ''z'')" "stmt InOrder ''z''" 1 "Some Map.empty"] run q
  have "Some Map.empty = variables ?s" by blast
  moreover have "handle sampleMatchLines sampleEvaluateLine (Some (stmt InOrder ''z''))
        (sampleState 0 [stmt DAG ''a''] [])
     = Inl (MatchFailedException (stmt InOrder ''z'') 1 (Some [''last'' \<mapsto> ''a'']),
            (sampleState 1 [] [])\<lparr>variables := Some [''last'' \<mapsto> ''a'']\<rparr>)"
    by (simp add: eval_defs sample_defs)
  moreover have "handleDagQueue sampleMatchLines \<lparr>start = 0, stop = 3\<rparr> (sampleState 0 [stmt DAG ''a''] [])
     = Inr ((sampleState 1 [] [])\<lparr>variables := Some [''last'' \<mapsto> ''a'']\<rparr>)"
    by (simp add: eval_defs sample_defs)
  ultimately show ?thesis using run by simp
qed

text \<open>
  C8, as the code has it.  The claim fails when a DAG group is pending: handling the
  Eval statement first flushes the group, which reads lines of the pass, moves the
  cursor, replaces the bindings and empties both queues; and when the flush fails, the
  statement fails although the evaluator returns true.
\<close>

theorem handle_Eval_flushes_first_counterexample:
  "handle sampleMatchLines sampleEvaluateLine (Some (stmt Eval ''last''))
       (sampleState 0 [stmt DAG ''b''] [stmt Not' ''c''])
     = Inl (MatchFailedException (stmt Eval ''last'') 2 (Some [''last'' \<mapsto> ''b'']),
            (sampleState 2 [] [])\<lparr>variables := Some [''last'' \<mapsto> ''b'']\<rparr>)
   \<and> cursor ((sampleState 2 [] [])\<lparr>variables := Some [''last'' \<mapsto> ''b'']\<rparr>)
       \<noteq> cursor (sampleState 0 [stmt DAG ''b''] [stmt Not' ''c''])
   \<and> variables ((sampleState 2 [] [])\<lparr>variables := Some [''last'' \<mapsto> ''b'']\<rparr>)
       \<noteq> variables (sampleState 0 [stmt DAG ''b''] [stmt Not' ''c''])
   \<and> dagQueue ((sampleState 2 [] [])\<lparr>variables := Some [''last'' \<mapsto> ''b'']\<rparr>)
       \<noteq> dagQueue (sampleState 0 [stmt DAG ''b''] [stmt Not' ''c''])
   \<and> notQueue ((sampleState 2 [] [])\<lparr>variables := Some [''last'' \<mapsto> ''b'']\<rparr>)
       \<noteq> notQueue (sampleState 0 [stmt DAG ''b''] [stmt Not' ''c''])
   \<and> sampleEvaluateLine (stmt Eval ''last'')
        (variables ((sampleState 0 [stmt DAG ''z''] [])\<lparr>variables := Some [''last'' \<mapsto> ''true'']\<rparr>))
       = EvalReturns True
   \<and> handle sampleMatchLines sampleEvaluateLine (Some (stmt Eval ''last''))
        ((sampleState 0 [stmt DAG ''z''] [])\<lparr>variables := Some [''last'' \<mapsto> ''true'']\<rparr>)
     = Inl (MatchFailedException (stmt DAG ''z'') 0 (Some [''last'' \<mapsto> ''true'']),
            (sampleState 0 [stmt DAG ''z''] [])\<lparr>variables := Some [''last'' \<mapsto> ''true'']\<rparr>)"
  by (simp add: eval_defs sample_defs)

text \<open>
  C8, amended.  The handler of an Eval statement leaves the whole state as it is, on
  return and on failure, so the cursor, the bindings and both queues are unchanged; its
  outcome does not depend on the pass.  It raises a match failure exactly when the
  evaluator returns false, and the failure carries the statement, the current cursor and
  the current bindings; an evaluator that fails on an unbound variable makes the handler
  fail with that error instead.  Handling the statement is the flush of the DAG queue
  followed by this handler: with no DAG group pending it is this handler alone; after a
  successful flush the state is the one the flush left and the statement fails exactly
  when the evaluator returns false on the bindings of that state; a failure of the flush
  is the failure of the statement.
\<close>

theorem handleEval_frame:
  "finalState (handleEval E st s) = s
   \<and> ((\<exists>x ln vs s'. handleEval E st s = Inl (MatchFailedException x ln vs, s'))
        \<longleftrightarrow> E st (variables s) = EvalReturns False)
   \<and> (E st (variables s) = EvalReturns False
        \<longrightarrow> handleEval E st s = Inl (MatchFailedException st (cursor s) (variables s), s))
   \<and> (E st (variables s) = EvalReturns True \<longrightarrow> handleEval E st s = Inr s)
   \<and> (E st (variables s) = EvalUnbound \<longrightarrow> handleEval E st s = Inl (UnboundVariable, s))
   \<and> handleEval E st (s\<lparr>c1Pass := p, c1Length := n\<rparr>)
        = map_sum (apsnd (\<lambda>t. t\<lparr>c1Pass := p, c1Length := n\<rparr>)) (\<lambda>t. t\<lparr>c1Pass := p, c1Length := n\<rparr>)
            (handleEval E st s)
   \<and> (variant st = Eval
        \<longrightarrow> handle M E (Some st) s =
             (case handleDagQueue M \<lparr>start = cursor s, stop = c1Length s\<rparr> s of
                Inl e \<Rightarrow> Inl e
              | Inr s1 \<Rightarrow> handleEval E st s1))
   \<and> (variant st = Eval \<and> dagQueue s = [] \<longrightarrow> handle M E (Some st) s = handleEval E st s)
   \<and> (variant st = Eval \<and> handleDagQueue M \<lparr>start = cursor s, stop = c1Length s\<rparr> s = Inr t
        \<longrightarrow> finalState (handle M E (Some st) s) = t \<and>
            ((\<exists>x ln vs s'. handle M E (Some st) s = Inl (MatchFailedException x ln vs, s'))
               \<longleftrightarrow> E st (variables t) = EvalReturns False))
   \<and> (variant st = Eval \<and> handleDagQueue M \<lparr>start = cursor s, stop = c1Length s\<rparr> s = Inl err
        \<longrightarrow> handle M E (Some st) s = Inl err)"
proof (intro conjI)
  show "variant st = Eval \<and> handleDagQueue M \<lparr>start = cursor s, stop = c1Length s\<rparr> s = Inr t
        \<longrightarrow> finalState (handle M E (Some st) s) = t \<and>
            ((\<exists>x ln vs s'. handle M E (Some st) s = Inl (MatchFailedException x ln vs, s'))
               \<longleftrightarrow> E st (variables t) = EvalReturns False)"
    using handleEval_state[of E st t]
    by (auto simp: handle_def handleEval_def split: EvalResult.splits)
  show "variant st = Eval \<and> handleDagQueue M \<lparr>start = cursor s, stop = c1Length s\<rparr> s = Inl err
        \<longrightarrow> handle M E (Some st) s = Inl err"
    by (simp add: handle_def)
  show "finalState (handleEval E st s) = s" by (rule handleEval_state)
  show "(\<exists>x ln vs s'. handleEval E st s = Inl (MatchFailedException x ln vs, s'))
        \<longleftrightarrow> E st (variables s) = EvalReturns False"
    by (auto simp: handleEval_def split: EvalResult.splits)
  show "E st (variables s) = EvalReturns False
        \<longrightarrow> handleEval E st s = Inl (MatchFailedException st (cursor s) (variables s), s)"
    by (simp add: handleEval_def)
  show "E st (variables s) = EvalReturns True \<longrightarrow> handleEval E st s = Inr s"
    by (simp add: handleEval_def)
  show "E st (variables s) = EvalUnbound \<longrightarrow> handleEval E st s = Inl (UnboundVariable, s)"
    by (simp add: handleEval_def)
  show "handleEval E st (s\<lparr>c1Pass := p, c1Length := n\<rparr>)
        = map_sum (apsnd (\<lambda>t. t\<lparr>c1Pass := p, c1Length := n\<rparr>)) (\<lambda>t. t\<lparr>c1Pass := p, c1Length := n\<rparr>)
            (handleEval E st s)"
    by (simp add: handleEval_def split: EvalResult.splits)
  show "variant st = Eval
        \<longrightarrow> handle M E (Some st) s =
             (case handleDagQueue M \<lparr>start = cursor s, stop = c1Length s\<rparr> s of
                Inl e \<Rightarrow> Inl e
              | Inr s1 \<Rightarrow> handleEval E st s1)"
    by (simp add: handle_def split: sum.splits)
  show "variant st = Eval \<and> dagQueue s = [] \<longrightarrow> handle M E (Some st) s = handleEval E st s"
    by (simp add: handle_def handleDagQueue_def)
qed


theorem handleEval_frame_witness:
  "sampleEvaluateLine (stmt Eval ''last'') (variables ((sampleState 1 [] [stmt Not' ''c''])\<lparr>variables := Some [''last'' \<mapsto> ''a'']\<rparr>))
     = EvalReturns False
   \<and> handle sampleMatchLines sampleEvaluateLine (Some (stmt Eval ''last''))
        ((sampleState 1 [] [stmt Not' ''c''])\<lparr>variables := Some [''last'' \<mapsto> ''a'']\<rparr>)
     = Inl (MatchFailedException (stmt Eval ''last'') 1 (Some [''last'' \<mapsto> ''a'']),
            (sampleState 1 [] [stmt Not' ''c''])\<lparr>variables := Some [''last'' \<mapsto> ''a'']\<rparr>)
   \<and> handle sampleMatchLines sampleEvaluateLine (Some (stmt Eval ''last''))
        ((sampleState 1 [] [stmt Not' ''c''])\<lparr>variables := Some [''last'' \<mapsto> ''true'']\<rparr>)
     = Inr ((sampleState 1 [] [stmt Not' ''c''])\<lparr>variables := Some [''last'' \<mapsto> ''true'']\<rparr>)
   \<and> handleDagQueue sampleMatchLines \<lparr>start = 0, stop = 3\<rparr>
        (sampleState 0 [stmt DAG ''b''] [stmt Not' ''c''])
     = Inr ((sampleState 2 [] [])\<lparr>variables := Some [''last'' \<mapsto> ''b'']\<rparr>)
   \<and> finalState (handle sampleMatchLines sampleEvaluateLine (Some (stmt Eval ''last''))
        (sampleState 0 [stmt DAG ''b''] [stmt Not' ''c'']))
     = (sampleState 2 [] [])\<lparr>variables := Some [''last'' \<mapsto> ''b'']\<rparr>"
proof -
  let ?u = "sampleState 0 [stmt DAG ''b''] [stmt Not' ''c'']"
  let ?v = "(sampleState 2 [] [])\<lparr>variables := Some [''last'' \<mapsto> ''b'']\<rparr>"
  have flush: "handleDagQueue sampleMatchLines \<lparr>start = 0, stop = 3\<rparr> ?u = Inr ?v"
    by (simp add: eval_defs sample_defs)
  then have pre: "variant (stmt Eval ''last'') = Eval \<and>
      handleDagQueue sampleMatchLines \<lparr>start = cursor ?u, stop = c1Length ?u\<rparr> ?u = Inr ?v"
    by (simp add: sample_defs)
  note fu = handleEval_frame[where E=sampleEvaluateLine and st="stmt Eval ''last''" and s="?u"
      and p=samplePass and n=3 and M=sampleMatchLines and t="?v"
      and err="(IndexError, ?u)"]
  from fu pre
  have c: "finalState (handle sampleMatchLines sampleEvaluateLine (Some (stmt Eval ''last'')) ?u) = ?v"
    by blast
  let ?s = "(sampleState 1 [] [stmt Not' ''c''])\<lparr>variables := Some [''last'' \<mapsto> ''a'']\<rparr>"
  let ?t = "(sampleState 1 [] [stmt Not' ''c''])\<lparr>variables := Some [''last'' \<mapsto> ''true'']\<rparr>"
  have f: "sampleEvaluateLine (stmt Eval ''last'') (variables ?s) = EvalReturns False"
    by (simp add: sample_defs)
  have t: "sampleEvaluateLine (stmt Eval ''last'') (variables ?t) = EvalReturns True"
    by (simp add: sample_defs)
  have v: "variant (stmt Eval ''last'') = Eval \<and> dagQueue ?s = []"
    and v': "variant (stmt Eval ''last'') = Eval \<and> dagQueue ?t = []"
    by (simp_all add: sample_defs)
  note fs = handleEval_frame[where E=sampleEvaluateLine and st="stmt Eval ''last''" and s="?s"
      and p=samplePass and n=3 and M=sampleMatchLines and t="?s"
      and err="(IndexError, ?s)"]
  note ft = handleEval_frame[where E=sampleEvaluateLine and st="stmt Eval ''last''" and s="?t"
      and p=samplePass and n=3 and M=sampleMatchLines and t="?s"
      and err="(IndexError, ?s)"]
  from fs f have a1: "handleEval sampleEvaluateLine (stmt Eval ''last'') ?s
      = Inl (MatchFailedException (stmt Eval ''last'') (cursor ?s) (variables ?s), ?s)"
    by blast
  from fs v have a2: "handle sampleMatchLines sampleEvaluateLine (Some (stmt Eval ''last'')) ?s
      = handleEval sampleEvaluateLine (stmt Eval ''last'') ?s"
    by blast
  have a: "handle sampleMatchLines sampleEvaluateLine (Some (stmt Eval ''last'')) ?s
      = Inl (MatchFailedException (stmt Eval ''last'') (cursor ?s) (variables ?s), ?s)"
    by (simp only: a1 a2)
  from ft t have b1: "handleEval sampleEvaluateLine (stmt Eval ''last'') ?t = Inr ?t"
    by blast
  from ft v' have b2: "handle sampleMatchLines sampleEvaluateLine (Some (stmt Eval ''last'')) ?t
      = handleEval sampleEvaluateLine (stmt Eval ''last'') ?t"
    by blast
  have b: "handle sampleMatchLines sampleEvaluateLine (Some (stmt Eval ''last'')) ?t = Inr ?t"
    by (simp only: b1 b2)
  show ?thesis using f a b flush c by (simp add: sampleState_def)
qed

text \<open>
  C3.  The code departs from the claim when the cursor is at the end of the pass: the
  scope \<open>[cursor, cursor + 1)\<close> then names the index \<open>len\<close>, and reading that line
  raises an index error instead of the match failure.  Inside the pass the handler does
  what the claim says: it matches the current line, clears the NOT queue and advances
  the cursor by one, or fails with the statement, the cursor and the current bindings.
\<close>

theorem handleNextLine_at_end_raises_IndexError:
  assumes "wellFormed s"
  shows "(cursor s = c1Length s \<longrightarrow> handleNextLine M st s = Inl (IndexError, s))
       \<and> (cursor s < c1Length s \<longrightarrow> handleNextLine M st s =
            (case M st (body (c1Pass s) ! nat (cursor s)) (variables s) of
               None \<Rightarrow> Inl (MatchFailedException st (cursor s) (variables s), s)
             | Some nv \<Rightarrow> Inr (s\<lparr>cursor := cursor s + 1, variables := Some nv, notQueue := []\<rparr>)))"
proof (intro conjI impI)
  have len: "c1Length s = int (length (body (c1Pass s)))" and pos: "0 \<le> cursor s"
    and nq: "\<forall>st\<in>set (notQueue s). variant st = Not'"
    using assms by (simp_all add: wellFormed_def)
  have one: "[cursor s..cursor s + 1 - 1] = [cursor s]" by (simp add: upto.simps)
  {
    assume "cursor s = c1Length s"
    then have "getitem (body (c1Pass s)) (cursor s) = None"
      using len by (simp add: getitem_def)
    then show "handleNextLine M st s = Inl (IndexError, s)"
      by (simp add: handleNextLine_def findMatchingLine_def one)
  }
  {
    assume lt: "cursor s < c1Length s"
    then have g: "getitem (body (c1Pass s)) (cursor s) = Some (body (c1Pass s) ! nat (cursor s))"
      using len pos by (simp add: getitem_def)
    have empty: "[cursor s..cursor s - 1] = []" by simp
    have "notLoop M (c1Pass s) (variables s) \<lparr>start = cursor s, stop = cursor s\<rparr> (notQueue s) = Inr ()"
      using nq by (intro notLoop_empty_scope) simp_all
    then have nqr: "handleNotQueue M \<lparr>start = cursor s, stop = cursor s\<rparr> s = Inr (s\<lparr>notQueue := []\<rparr>)"
      by (simp add: handleNotQueue_def)
    show "handleNextLine M st s =
            (case M st (body (c1Pass s) ! nat (cursor s)) (variables s) of
               None \<Rightarrow> Inl (MatchFailedException st (cursor s) (variables s), s)
             | Some nv \<Rightarrow> Inr (s\<lparr>cursor := cursor s + 1, variables := Some nv, notQueue := []\<rparr>))"
      by (simp add: handleNextLine_def findMatchingLine_def one g moveCursor_def nqr
          split: option.splits)
  }
qed

theorem handleNextLine_at_end_raises_IndexError_witness:
  "wellFormed (sampleState 3 [] [])
   \<and> cursor (sampleState 3 [] []) = c1Length (sampleState 3 [] [])
   \<and> handleNextLine sampleMatchLines (stmt NextLine ''d'') (sampleState 3 [] [])
       = Inl (IndexError, sampleState 3 [] [])
   \<and> MatchTestCase sampleMatchLines sampleEvaluateLine
        \<lparr>tc_name = ''pass'', statements = [stmt InOrder ''c'', stmt NextLine ''d''],
         testArch = None, forDebuggable = False, tc_fileName = ''Test.java'', tc_startLineNo = 1\<rparr>
        samplePass
       = Inl IndexError"
proof -
  have wf: "wellFormed (sampleState 3 [] [])" by (simp add: wellFormed_def sample_defs)
  have at_end: "cursor (sampleState 3 [] []) = c1Length (sampleState 3 [] [])"
    by (simp add: sample_defs)
  from handleNextLine_at_end_raises_IndexError[OF wf, of sampleMatchLines "stmt NextLine ''d''"] at_end
  have "handleNextLine sampleMatchLines (stmt NextLine ''d'') (sampleState 3 [] [])
       = Inl (IndexError, sampleState 3 [] [])"
    by blast
  moreover have "MatchTestCase sampleMatchLines sampleEvaluateLine
        \<lparr>tc_name = ''pass'', statements = [stmt InOrder ''c'', stmt NextLine ''d''],
         testArch = None, forDebuggable = False, tc_fileName = ''Test.java'', tc_startLineNo = 1\<rparr>
        samplePass
       = Inl IndexError"
    by (simp add: MatchTestCase_def eval_defs sample_defs)
  ultimately show ?thesis using wf at_end by simp
qed

section \<open>Claim about the orchestrator\<close>

text \<open>
  C9, as the code has it.  The claim fails when the dump file cannot be read: the
  handler of the match failure reads the file before it reports, the I/O error leaves
  the orchestrator, nothing is reported and the second test case is not run.
\<close>

theorem MatchFiles_unreadable_dump_counterexample:
  "MatchTestCase sampleMatchLines sampleEvaluateLine (sampleTestCase [stmt InOrder ''z'']) samplePass
     = Inl (MatchFailedException (stmt InOrder ''z'') 0 (Some Map.empty))
   \<and> MatchFiles sampleMatchLines sampleEvaluateLine Map.empty
        \<lparr>testCases = [sampleTestCase [stmt InOrder ''z''], sampleTestCase [stmt InOrder ''c'']]\<rparr>
        sampleC1File None False []
     = Inl (IOError, [StartTest ''pass''])"
  by (simp add: MatchFiles_def MatchTestCase_def sampleTestCase_def sampleC1File_def
      findPass_def reportFailure_def Logger_startTest_def eval_defs sample_defs)

text \<open>
  C9, amended.  A match failure raised while a test case runs is caught by the
  orchestrator.  When the dump file can be read, the dump is logged and the failure is
  reported as a failure of that test case, with the statement, the absolute line number
  (the base line number of the pass plus the relative index of the failure) and the
  bindings of the failure, and the remaining test cases are processed as they would be
  on their own, from the logger extended by that report.  When the dump file cannot be
  read, the I/O error leaves the orchestrator with nothing reported for the test case.
\<close>

theorem MatchFiles_keeps_going:
  assumes "testArch testCase \<in> {None, targetArch}"
    and "forDebuggable testCase = debuggableMode"
    and "findPass c1File (tc_name testCase) = Some p"
    and "MatchTestCase M E testCase p = Inl (MatchFailedException st ln vs)"
    and "MatchFiles_loop M E fs c1File targetArch debuggableMode before lg = Inr lgb"
  shows "(fs (fileName c1File) = Some cfgFile \<longrightarrow>
           MatchFiles M E fs \<lparr>testCases = before @ testCase # rest\<rparr> c1File targetArch
             debuggableMode lg =
           MatchFiles_loop M E fs c1File targetArch debuggableMode rest
             (lgb @ [StartTest (tc_name testCase), Log cfgFile LevelError,
                     TestFailed (if variant st = Not' then ''NOT statement matched line {}''
                                 else ''Statement could not be matched starting from line {}'',
                                 startLineNo p + ln) st vs]))
       \<and> (fs (fileName c1File) = None \<longrightarrow>
           MatchFiles M E fs \<lparr>testCases = before @ testCase # rest\<rparr> c1File targetArch
             debuggableMode lg =
           Inl (IOError, lgb @ [StartTest (tc_name testCase)]))"
proof (intro conjI impI)
  assume r: "fs (fileName c1File) = Some cfgFile"
  have "MatchFiles_loop M E fs c1File targetArch debuggableMode (testCase # rest) lgb =
     MatchFiles_loop M E fs c1File targetArch debuggableMode rest
       (lgb @ [StartTest (tc_name testCase), Log cfgFile LevelError,
               TestFailed (if variant st = Not' then ''NOT statement matched line {}''
                           else ''Statement could not be matched starting from line {}'',
                           startLineNo p + ln) st vs])"
    using assms(1-4) r by (rule MatchFiles_loop_failed)
  then show "MatchFiles M E fs \<lparr>testCases = before @ testCase # rest\<rparr> c1File targetArch
             debuggableMode lg =
           MatchFiles_loop M E fs c1File targetArch debuggableMode rest
             (lgb @ [StartTest (tc_name testCase), Log cfgFile LevelError,
                     TestFailed (if variant st = Not' then ''NOT statement matched line {}''
                                 else ''Statement could not be matched starting from line {}'',
                                 startLineNo p + ln) st vs])"
    unfolding MatchFiles_def
    by (simp add: MatchFiles_loop_append assms(5) del: MatchFiles_loop.simps)
next
  assume u: "fs (fileName c1File) = None"
  have "MatchFiles_loop M E fs c1File targetArch debuggableMode (testCase # rest) lgb =
     Inl (IOError, lgb @ [StartTest (tc_name testCase)])"
    using assms(1-4) u by (rule MatchFiles_loop_unreadable)
  then show "MatchFiles M E fs \<lparr>testCases = before @ testCase # rest\<rparr> c1File targetArch
             debuggableMode lg =
           Inl (IOError, lgb @ [StartTest (tc_name testCase)])"
    unfolding MatchFiles_def
    by (simp add: MatchFiles_loop_append assms(5) del: MatchFiles_loop.simps)
qed

theorem MatchFiles_keeps_going_witness:
  "MatchTestCase sampleMatchLines sampleEvaluateLine (sampleTestCase [stmt InOrder ''z'']) samplePass
     = Inl (MatchFailedException (stmt InOrder ''z'') 0 (Some Map.empty))
   \<and> MatchFiles sampleMatchLines sampleEvaluateLine sampleFiles
        \<lparr>testCases = [] @ sampleTestCase [stmt InOrder ''z'']
                       # [sampleTestCase [stmt Not' ''b'', stmt InOrder ''c''],
                          sampleTestCase [stmt InOrder ''c'']]\<rparr>
        sampleC1File None False []
     = Inr [StartTest ''pass'', Log ''begin_cfg'' LevelError,
            TestFailed (''Statement could not be matched starting from line {}'', 10)
              (stmt InOrder ''z'') (Some Map.empty),
            StartTest ''pass'', Log ''begin_cfg'' LevelError,
            TestFailed (''NOT statement matched line {}'', 11)
              (stmt Not' ''b'') (Some Map.empty),
            StartTest ''pass'', TestPassed]
   \<and> MatchFiles sampleMatchLines sampleEvaluateLine Map.empty
        \<lparr>testCases = [] @ sampleTestCase [stmt InOrder ''z'']
                       # [sampleTestCase [stmt InOrder ''c'']]\<rparr>
        sampleC1File None False []
     = Inl (IOError, [] @ [StartTest (tc_name (sampleTestCase [stmt InOrder ''z'']))])"
proof -
  have fail: "MatchTestCase sampleMatchLines sampleEvaluateLine (sampleTestCase [stmt InOrder ''z'']) samplePass
     = Inl (MatchFailedException (stmt InOrder ''z'') 0 (Some Map.empty))"
    by (simp add: MatchTestCase_def sampleTestCase_def eval_defs sample_defs)
  have h1: "testArch (sampleTestCase [stmt InOrder ''z'']) \<in> {None, None}"
    and h2: "forDebuggable (sampleTestCase [stmt InOrder ''z'']) = False"
    and h3: "findPass sampleC1File (tc_name (sampleTestCase [stmt InOrder ''z''])) = Some samplePass"
    and h5: "sampleFiles (fileName sampleC1File) = Some ''begin_cfg''"
    and h6: "MatchFiles_loop sampleMatchLines sampleEvaluateLine sampleFiles sampleC1File None False [] [] = Inr []"
    and h6': "MatchFiles_loop sampleMatchLines sampleEvaluateLine Map.empty sampleC1File None False [] [] = Inr []"
    and h5': "Map.empty (fileName sampleC1File) = None"
    by (simp_all add: sampleTestCase_def sampleC1File_def sampleFiles_def findPass_def samplePass_def)
  have rest: "MatchFiles_loop sampleMatchLines sampleEvaluateLine sampleFiles sampleC1File None False
       [sampleTestCase [stmt Not' ''b'', stmt InOrder ''c''], sampleTestCase [stmt InOrder ''c'']]
       ([] @ [StartTest (tc_name (sampleTestCase [stmt InOrder ''z''])), Log ''begin_cfg'' LevelError,
              TestFailed (if variant (stmt InOrder ''z'') = Not' then ''NOT statement matched line {}''
                          else ''Statement could not be matched starting from line {}'',
                          startLineNo samplePass + 0) (stmt InOrder ''z'') (Some Map.empty)])
     = Inr [StartTest ''pass'', Log ''begin_cfg'' LevelError,
            TestFailed (''Statement could not be matched starting from line {}'', 10)
              (stmt InOrder ''z'') (Some Map.empty),
            StartTest ''pass'', Log ''begin_cfg'' LevelError,
            TestFailed (''NOT statement matched line {}'', 11)
              (stmt Not' ''b'') (Some Map.empty),
            StartTest ''pass'', TestPassed]"
    by (simp add: MatchTestCase_def sampleTestCase_def sampleC1File_def sampleFiles_def
        findPass_def reportFailure_def Logger_startTest_def Logger_log_def Logger_testFailed_def
        Logger_testPassed_def eval_defs sample_defs)
  note readable = MatchFiles_keeps_going[where fs=sampleFiles and cfgFile="''begin_cfg''"
      and rest="[sampleTestCase [stmt Not' ''b'', stmt InOrder ''c''], sampleTestCase [stmt InOrder ''c'']]",
      OF h1 h2 h3 fail h6]
  note unreadable = MatchFiles_keeps_going[where fs=Map.empty and cfgFile="''begin_cfg''"
      and rest="[sampleTestCase [stmt InOrder ''c'']]", OF h1 h2 h3 fail h6']
  from readable h5 have a: "MatchFiles sampleMatchLines sampleEvaluateLine sampleFiles
        \<lparr>testCases = [] @ sampleTestCase [stmt InOrder ''z'']
                       # [sampleTestCase [stmt Not' ''b'', stmt InOrder ''c''],
                          sampleTestCase [stmt InOrder ''c'']]\<rparr>
        sampleC1File None False [] =
      MatchFiles_loop sampleMatchLines sampleEvaluateLine sampleFiles sampleC1File None False
       [sampleTestCase [stmt Not' ''b'', stmt InOrder ''c''], sampleTestCase [stmt InOrder ''c'']]
       ([] @ [StartTest (tc_name (sampleTestCase [stmt InOrder ''z''])), Log ''begin_cfg'' LevelError,
              TestFailed (if variant (stmt InOrder ''z'') = Not' then ''NOT statement matched line {}''
                          else ''Statement could not be matched starting from line {}'',
                          startLineNo samplePass + 0) (stmt InOrder ''z'') (Some Map.empty)])"
    by blast
  from unreadable h5' have b: "MatchFiles sampleMatchLines sampleEvaluateLine Map.empty
        \<lparr>testCases = [] @ sampleTestCase [stmt InOrder ''z'']
                       # [sampleTestCase [stmt InOrder ''c'']]\<rparr>
        sampleC1File None False []
     = Inl (IOError, [] @ [StartTest (tc_name (sampleTestCase [stmt InOrder ''z'']))])"
    by blast
  show ?thesis using fail a[unfolded rest] b by blast
qed

end
